theory Spec2Isabelle
  imports Main "HOL-Library.Sublist"
begin

section \<open>Strings of the platform\<close>

text \<open>
  A JavaScript string is a sequence of code units; it is modelled by \<open>string\<close>, one
  \<open>char\<close> per code unit, and \<open>length\<close> is the \<open>.length\<close> of the source.
\<close>

definition startsWith :: "string \<Rightarrow> string \<Rightarrow> bool" where
  "startsWith s p = prefix p s"

definition endsWith :: "string \<Rightarrow> string \<Rightarrow> bool" where
  "endsWith s p = suffix p s"

definition str_includes :: "string \<Rightarrow> string \<Rightarrow> bool" where
  "str_includes s m = sublist m s"

text \<open>\<open>xs.some(p)\<close> of the source is \<open>list_ex p xs\<close>.\<close>

section \<open>Bedrock region prefixing\<close>

text \<open>
  \<open>CUSTOM_LOADERS["amazon-bedrock"].getModel\<close>. The result is the model ID handed to
  \<open>sdk.languageModel\<close>. \<open>options_region\<close> is \<open>options?.region\<close>, \<open>defaultRegion\<close> the
  region of the enclosing loader.
\<close>

definition regionPrefix_of :: "string \<Rightarrow> string" where
  \<comment> \<open>\<open>region.split("-")[0]\<close>\<close>
  "regionPrefix_of region = takeWhile (\<lambda>c. c \<noteq> CHR ''-'') region"

definition bedrock_getModel :: "string option \<Rightarrow> string \<Rightarrow> string \<Rightarrow> string" where
  "bedrock_getModel options_region defaultRegion modelID =
    (if startsWith modelID ''global.'' \<or> startsWith modelID ''jp.'' then modelID
     else
       let region = (case options_region of Some r \<Rightarrow> r | None \<Rightarrow> defaultRegion);
           regionPrefix = regionPrefix_of region
       in
       if regionPrefix = ''us'' then
         (let modelRequiresPrefix =
                list_ex (\<lambda>m. str_includes modelID m)
                  [''nova-micro'', ''nova-lite'', ''nova-pro'', ''nova-premier'', ''claude'', ''deepseek''];
              isGovCloud = startsWith region ''us-gov''
          in if modelRequiresPrefix \<and> \<not> isGovCloud then regionPrefix @ ''.'' @ modelID else modelID)
       else if regionPrefix = ''eu'' then
         (let regionRequiresPrefix =
                list_ex (\<lambda>r. str_includes region r)
                  [''eu-west-1'', ''eu-west-2'', ''eu-west-3'', ''eu-north-1'', ''eu-central-1'',
                   ''eu-south-1'', ''eu-south-2''];
              modelRequiresPrefix =
                list_ex (\<lambda>m. str_includes modelID m)
                  [''claude'', ''nova-lite'', ''nova-micro'', ''llama3'', ''pixtral'']
          in if regionRequiresPrefix \<and> modelRequiresPrefix then regionPrefix @ ''.'' @ modelID else modelID)
       else if regionPrefix = ''ap'' then
         (let isAustraliaRegion = (region \<in> set [''ap-southeast-2'', ''ap-southeast-4'']);
              isTokyoRegion = (region = ''ap-northeast-1'')
          in
          if isAustraliaRegion \<and>
             list_ex (\<lambda>m. str_includes modelID m) [''anthropic.claude-sonnet-4-5'', ''anthropic.claude-haiku'']
          then ''au'' @ ''.'' @ modelID
          else if isTokyoRegion then
            (if list_ex (\<lambda>m. str_includes modelID m) [''claude'', ''nova-lite'', ''nova-micro'', ''nova-pro'']
             then ''jp'' @ ''.'' @ modelID else modelID)
          else
            (if list_ex (\<lambda>m. str_includes modelID m) [''claude'', ''nova-lite'', ''nova-micro'', ''nova-pro'']
             then ''apac'' @ ''.'' @ modelID else modelID))
       else modelID)"

section \<open>PTY multiplexer\<close>

text \<open>
  The session objects are shared by reference between the session table and the handlers
  registered on the child and on the sinks, so the model keeps an explicit store: the table
  \<open>sessions\<close> maps a session id to the reference of its \<open>ActiveSession\<close> object, \<open>heap\<close>
  holds the objects. Handlers act on the reference they closed over, whether the table
  still has the session or not.
\<close>

definition BUFFER_LIMIT :: nat where
  "BUFFER_LIMIT = 1024 * 1024 * 2"

definition BUFFER_CHUNK :: nat where
  "BUFFER_CHUNK = 64 * 1024"

datatype pty_status = Running | Exited

record Info =
  pty_id :: string
  title :: string
  command :: string
  args :: "string list"
  cwd :: string
  status :: pty_status
  pid :: nat

text \<open>
  The child process (\<open>IPty\<close>) as far as the multiplexer drives it: what was written to
  it, whether \<open>kill\<close> was called, and the last \<open>resize(cols, rows)\<close>.
\<close>

record IPty =
  written :: "string list"
  killed :: bool
  dims :: "(int \<times> int) option"

record ActiveSession =
  info :: Info
  process :: IPty
  buffer :: string
  subscribers :: "nat list"
  listeners :: "nat list"
  cwdPinned :: bool

text \<open>
  A sink (\<open>WSContext\<close>) is an object of the environment: \<open>readyState\<close> is read by the
  output handler, \<open>received\<close> lists the frames its \<open>send\<close> accepted, oldest first, and
  \<open>closeCalled\<close> records \<open>close()\<close>. The source guards \<open>send\<close> with try/catch in
  \<open>connect\<close>, so \<open>send\<close> may throw: \<open>sendable = Some n\<close> says that the next \<open>n\<close> sends
  succeed and the one after throws, \<open>None\<close> that no send throws.
\<close>

record sink =
  readyState :: nat
  sendable :: "nat option"
  received :: "string list"
  closeCalled :: bool

datatype event =
    Created Info
  | Updated Info
  | ExitedEv string int
  | Deleted string

record pty_state =
  sessions :: "string \<rightharpoonup> nat"
  heap :: "nat \<rightharpoonup> ActiveSession"
  nextRef :: nat
  sinks :: "nat \<Rightarrow> sink"
  heard :: "nat \<Rightarrow> string list"
  bus :: "event list"

text \<open>A \<open>Set\<close> iterates in insertion order: a list without repetition.\<close>

definition set_add :: "nat \<Rightarrow> nat list \<Rightarrow> nat list" where
  "set_add x xs = (if x \<in> set xs then xs else xs @ [x])"

definition set_delete :: "nat \<Rightarrow> nat list \<Rightarrow> nat list" where
  "set_delete x xs = removeAll x xs"

definition slice_last :: "nat \<Rightarrow> string \<Rightarrow> string" where
  \<comment> \<open>\<open>s.slice(-n)\<close> for \<open>n > 0\<close>\<close>
  "slice_last n s = drop (length s - n) s"

definition slice :: "string \<Rightarrow> nat \<Rightarrow> nat \<Rightarrow> string" where
  \<comment> \<open>\<open>s.slice(i, j)\<close> for \<open>0 \<le> i \<le> j\<close>\<close>
  "slice s i j = take (j - i) (drop i s)"

definition is_space :: "char \<Rightarrow> bool" where
  \<comment> \<open>the white space and line terminators of \<open>String.prototype.trim\<close> among the code units below 256\<close>
  "is_space c = (c \<in> set [CHR 0x09, CHR 0x0A, CHR 0x0B, CHR 0x0C, CHR 0x0D, CHR 0x20, CHR 0xA0])"

definition trim :: "string \<Rightarrow> string" where
  "trim s = rev (dropWhile is_space (rev (dropWhile is_space s)))"

definition lower_char :: "char \<Rightarrow> char" where
  "lower_char c =
     (let n = (of_char c :: nat)
      in if (65 \<le> n \<and> n \<le> 90) \<or> (192 \<le> n \<and> n \<le> 222 \<and> n \<noteq> 215) then char_of (n + 32) else c)"

definition toLowerCase :: "string \<Rightarrow> string" where
  "toLowerCase s = map lower_char s"

definition replace_char :: "char \<Rightarrow> string \<Rightarrow> string \<Rightarrow> string" where
  \<comment> \<open>every occurrence of the code unit \<open>c\<close> in \<open>s\<close> replaced by \<open>r\<close>\<close>
  "replace_char c r s = concat (map (\<lambda>x. if x = c then r else [x]) s)"

datatype shell_kind = Posix | Cmd | Powershell

definition detectShellKind :: "string \<Rightarrow> shell_kind" where
  "detectShellKind shellPath =
     (let s = toLowerCase shellPath
      in if str_includes s ''powershell'' \<or> endsWith s ''pwsh'' then Powershell
         else if endsWith s ''cmd.exe'' \<or> endsWith s (CHR 0x5C # ''cmd'') \<or> endsWith s ''/cmd'' then Cmd
         else Posix)"

definition posixQuote :: "string \<Rightarrow> string" where
  "posixQuote v =
     [CHR 0x27] @ replace_char (CHR 0x27) [CHR 0x27, CHR 0x22, CHR 0x27, CHR 0x22, CHR 0x27] v @ [CHR 0x27]"

definition powershellQuote :: "string \<Rightarrow> string" where
  "powershellQuote v = [CHR 0x27] @ replace_char (CHR 0x27) [CHR 0x27, CHR 0x27] v @ [CHR 0x27]"

definition buildCwdCommand :: "shell_kind \<Rightarrow> string \<Rightarrow> string" where
  "buildCwdCommand shell d =
     (case shell of
        Cmd \<Rightarrow> ''cd /d '' @ [CHR 0x22] @ replace_char (CHR 0x22) [CHR 0x22, CHR 0x22] d
                 @ [CHR 0x22, CHR 0x0D, CHR 0x0A]
      | Powershell \<Rightarrow> ''Set-Location -LiteralPath '' @ powershellQuote d @ [CHR 0x0D, CHR 0x0A]
      | Posix \<Rightarrow> ''cd -- '' @ posixQuote d @ [CHR 0x0D])"

subsection \<open>Sinks and the child\<close>

definition send :: "nat \<Rightarrow> string \<Rightarrow> (nat \<Rightarrow> sink) \<Rightarrow> (nat \<Rightarrow> sink) option" where
  \<comment> \<open>\<open>ws.send(data)\<close>; \<open>None\<close> when it throws\<close>
  "send ws d sk =
     (case sendable (sk ws) of
        None \<Rightarrow> Some (sk(ws := (sk ws)\<lparr>received := received (sk ws) @ [d]\<rparr>))
      | Some 0 \<Rightarrow> None
      | Some (Suc n) \<Rightarrow> Some (sk(ws := (sk ws)\<lparr>received := received (sk ws) @ [d], sendable := Some n\<rparr>)))"

definition close :: "nat \<Rightarrow> (nat \<Rightarrow> sink) \<Rightarrow> (nat \<Rightarrow> sink)" where
  \<comment> \<open>\<open>ws.close()\<close>\<close>
  "close ws sk = sk(ws := (sk ws)\<lparr>closeCalled := True\<rparr>)"

definition process_write :: "string \<Rightarrow> ActiveSession \<Rightarrow> ActiveSession" where
  \<comment> \<open>\<open>session.process.write(data)\<close>\<close>
  "process_write d s = s\<lparr>process := (process s)\<lparr>written := written (process s) @ [d]\<rparr>\<rparr>"

definition process_resize :: "int \<Rightarrow> int \<Rightarrow> ActiveSession \<Rightarrow> ActiveSession" where
  \<comment> \<open>\<open>session.process.resize(cols, rows)\<close>\<close>
  "process_resize cols rows s = s\<lparr>process := (process s)\<lparr>dims := Some (cols, rows)\<rparr>\<rparr>"

definition process_kill :: "ActiveSession \<Rightarrow> ActiveSession" where
  \<comment> \<open>\<open>try { session.process.kill() } catch {}\<close>\<close>
  "process_kill s = s\<lparr>process := (process s)\<lparr>killed := True\<rparr>\<rparr>"

definition publish :: "event \<Rightarrow> pty_state \<Rightarrow> pty_state" where
  \<comment> \<open>\<open>Bus.publish\<close>: the events in publish order\<close>
  "publish e st = st\<lparr>bus := bus st @ [e]\<rparr>"

subsection \<open>Operations\<close>

record CreateInput =
  in_command :: "string option"
  in_args :: "string list option"
  in_cwd :: "string option"
  in_title :: "string option"

text \<open>
  What \<open>create\<close> takes from its environment: the identifier made by \<open>Identifier.create\<close>,
  \<open>Shell.preferred()\<close>, \<open>Instance.directory\<close> and the pid of the spawned child.
\<close>

record spawn_env =
  new_id :: string
  preferred :: string
  directory :: string
  new_pid :: nat

definition or_str :: "string option \<Rightarrow> string \<Rightarrow> string" where
  \<comment> \<open>\<open>x || d\<close> on an optional string: the empty string is falsy\<close>
  "or_str x d = (case x of None \<Rightarrow> d | Some v \<Rightarrow> if v = [] then d else v)"

definition truthy_str :: "string option \<Rightarrow> bool" where
  "truthy_str x = (case x of None \<Rightarrow> False | Some v \<Rightarrow> v \<noteq> [])"

definition create :: "CreateInput \<Rightarrow> spawn_env \<Rightarrow> pty_state \<Rightarrow> Info \<times> pty_state" where
  "create input env st =
     (let ident = new_id env;
          command' = or_str (in_command input) (preferred env);
          args0 = (case in_args input of Some a \<Rightarrow> a | None \<Rightarrow> []);
          args' = (if endsWith command' ''sh'' then args0 @ [''-l''] else args0);
          cwd' = or_str (in_cwd input) (directory env);
          info' = \<lparr>pty_id = ident, title = or_str (in_title input) (''Terminal '' @ slice_last 4 ident),
                   command = command', args = args', cwd = cwd', status = Running, pid = new_pid env\<rparr>;
          session = \<lparr>info = info', process = \<lparr>written = [], killed = False, dims = None\<rparr>,
                     buffer = [], subscribers = [], listeners = [],
                     cwdPinned = truthy_str (in_cwd input)\<rparr>;
          r = nextRef st
      in (info', publish (Created info')
                   (st\<lparr>sessions := (sessions st)(ident \<mapsto> r),
                       heap := (heap st)(r \<mapsto> session),
                       nextRef := Suc r\<rparr>)))"

text \<open>
  The loop of the output handler over the subscribers. The arguments are the chunk, the
  subscribers still to visit, the subscriber set, the sinks and \<open>open\<close>; the result adds
  whether a \<open>send\<close> threw, which ends the handler there.
\<close>

fun fan_out :: "string \<Rightarrow> nat list \<Rightarrow> nat list \<Rightarrow> (nat \<Rightarrow> sink) \<Rightarrow> bool
    \<Rightarrow> nat list \<times> (nat \<Rightarrow> sink) \<times> bool \<times> bool" where
  "fan_out d [] subs sk opn = (subs, sk, opn, False)"
| "fan_out d (ws # rest) subs sk opn =
     (if readyState (sk ws) \<noteq> 1 then fan_out d rest (set_delete ws subs) sk opn
      else (case send ws d sk of
              None \<Rightarrow> (subs, sk, True, True)
            | Some sk' \<Rightarrow> fan_out d rest subs sk' True))"

definition call_listeners :: "string \<Rightarrow> nat list \<Rightarrow> (nat \<Rightarrow> string list) \<Rightarrow> (nat \<Rightarrow> string list)" where
  \<comment> \<open>\<open>for (const listener of session.listeners) try { listener(data) } catch {}\<close>\<close>
  "call_listeners d ls h = foldl (\<lambda>h l. h(l := h l @ [d])) h ls"

text \<open>
  \<open>ptyProcess.onData\<close> for the session object \<open>r\<close>. The second component says whether the
  handler was ended by an exception of \<open>ws.send\<close>.
\<close>

definition onData :: "nat \<Rightarrow> string \<Rightarrow> pty_state \<Rightarrow> pty_state \<times> bool" where
  "onData r d st =
     (case heap st r of
        None \<Rightarrow> (st, False)
      | Some s \<Rightarrow>
          (case fan_out d (subscribers s) (subscribers s) (sinks st) False of
             (subs, sk, opn, threw) \<Rightarrow>
               let st1 = st\<lparr>heard := call_listeners d (listeners s) (heard st), sinks := sk\<rparr>;
                   s1 = s\<lparr>subscribers := subs\<rparr>
               in if threw then (st1\<lparr>heap := (heap st)(r \<mapsto> s1)\<rparr>, True)
                  else if opn then (st1\<lparr>heap := (heap st)(r \<mapsto> s1)\<rparr>, False)
                  else
                    let b = buffer s @ d
                    in if length b \<le> BUFFER_LIMIT
                       then (st1\<lparr>heap := (heap st)(r \<mapsto> s1\<lparr>buffer := b\<rparr>)\<rparr>, False)
                       else (st1\<lparr>heap := (heap st)(r \<mapsto> s1\<lparr>buffer := slice_last BUFFER_LIMIT b\<rparr>)\<rparr>, False)))"

text \<open>\<open>ptyProcess.onExit\<close> for the session object \<open>r\<close>; \<open>id\<close> of the closure is the id of its info.\<close>

definition onExit :: "nat \<Rightarrow> int \<Rightarrow> pty_state \<Rightarrow> pty_state" where
  "onExit r exitCode st =
     (case heap st r of
        None \<Rightarrow> st
      | Some s \<Rightarrow>
          let s1 = s\<lparr>info := (info s)\<lparr>status := Exited\<rparr>\<rparr>;
              st1 = publish (ExitedEv (pty_id (info s)) exitCode) (st\<lparr>heap := (heap st)(r \<mapsto> s1)\<rparr>)
          in st1\<lparr>sessions := (sessions st1)(pty_id (info s) := None)\<rparr>)"

record UpdateInput =
  up_title :: "string option"
  up_size :: "(int \<times> int) option"

text \<open>\<open>up_size\<close> is \<open>(rows, cols)\<close> as in the source's object.\<close>

definition update :: "string \<Rightarrow> UpdateInput \<Rightarrow> pty_state \<Rightarrow> Info option \<times> pty_state" where
  "update ident input st =
     (case sessions st ident of
        None \<Rightarrow> (None, st)
      | Some r \<Rightarrow>
          (case heap st r of
             None \<Rightarrow> (None, st)
           | Some s \<Rightarrow>
               let s1 = (if truthy_str (up_title input)
                         then s\<lparr>info := (info s)\<lparr>title := the (up_title input)\<rparr>\<rparr> else s);
                   s2 = (case up_size input of
                           None \<Rightarrow> s1
                         | Some (rows, cols) \<Rightarrow> process_resize cols rows s1)
               in (Some (info s2), publish (Updated (info s2)) (st\<lparr>heap := (heap st)(r \<mapsto> s2)\<rparr>))))"

definition remove :: "string \<Rightarrow> pty_state \<Rightarrow> pty_state" where
  "remove ident st =
     (case sessions st ident of
        None \<Rightarrow> st
      | Some r \<Rightarrow>
          (case heap st r of
             None \<Rightarrow> st
           | Some s \<Rightarrow>
               publish (Deleted ident)
                 (st\<lparr>heap := (heap st)(r \<mapsto> process_kill s),
                     sinks := foldl (\<lambda>sk ws. close ws sk) (sinks st) (subscribers s),
                     sessions := (sessions st)(ident := None)\<rparr>)))"

definition resize :: "string \<Rightarrow> int \<Rightarrow> int \<Rightarrow> pty_state \<Rightarrow> pty_state" where
  "resize ident cols rows st =
     (case sessions st ident of
        None \<Rightarrow> st
      | Some r \<Rightarrow>
          (case heap st r of
             None \<Rightarrow> st
           | Some s \<Rightarrow>
               if status (info s) = Running then st\<lparr>heap := (heap st)(r \<mapsto> process_resize cols rows s)\<rparr>
               else st))"

definition pty_write :: "string \<Rightarrow> string \<Rightarrow> pty_state \<Rightarrow> pty_state" where
  "pty_write ident d st =
     (case sessions st ident of
        None \<Rightarrow> st
      | Some r \<Rightarrow>
          (case heap st r of
             None \<Rightarrow> st
           | Some s \<Rightarrow>
               if status (info s) = Running then st\<lparr>heap := (heap st)(r \<mapsto> process_write d s)\<rparr>
               else st))"

text \<open>
  \<open>listen\<close> returns the reference its unsubscribe closure holds (\<open>None\<close> for \<open>undefined\<close>);
  \<open>unlisten\<close> is that closure.
\<close>

definition listen :: "string \<Rightarrow> nat \<Rightarrow> pty_state \<Rightarrow> nat option \<times> pty_state" where
  "listen ident l st =
     (case sessions st ident of
        None \<Rightarrow> (None, st)
      | Some r \<Rightarrow>
          (case heap st r of
             None \<Rightarrow> (None, st)
           | Some s \<Rightarrow>
               if status (info s) \<noteq> Running then (None, st)
               else (Some r, st\<lparr>heap := (heap st)(r \<mapsto> s\<lparr>listeners := set_add l (listeners s)\<rparr>)\<rparr>)))"

definition unlisten :: "nat \<Rightarrow> nat \<Rightarrow> pty_state \<Rightarrow> pty_state" where
  "unlisten r l st =
     (case heap st r of
        None \<Rightarrow> st
      | Some s \<Rightarrow> st\<lparr>heap := (heap st)(r \<mapsto> s\<lparr>listeners := set_delete l (listeners s)\<rparr>)\<rparr>)"

text \<open>
  The replay loop of \<open>connect\<close>:
  \<open>for (let i = 0; i < buffer.length; i += BUFFER_CHUNK) ws.send(buffer.slice(i, i + BUFFER_CHUNK))\<close>.
  The second component says whether a \<open>send\<close> threw.
\<close>

function flush :: "nat \<Rightarrow> string \<Rightarrow> nat \<Rightarrow> (nat \<Rightarrow> sink) \<Rightarrow> (nat \<Rightarrow> sink) \<times> bool" where
  "flush ws b i sk =
     (if i < length b
      then (case send ws (slice b i (i + BUFFER_CHUNK)) sk of
              None \<Rightarrow> (sk, True)
            | Some sk' \<Rightarrow> flush ws b (i + BUFFER_CHUNK) sk')
      else (sk, False))"
  by pat_completeness auto
termination
  by (relation "measure (\<lambda>(ws, b, i, sk). length b - i)") (auto simp: BUFFER_CHUNK_def)

declare flush.simps [simp del]

text \<open>
  The part of \<open>connect\<close> that pins the working directory; \<open>dir\<close> is
  \<open>options?.directory?.trim()\<close>. The result is the session and the events published.
\<close>

definition pin_cwd :: "string option \<Rightarrow> ActiveSession \<Rightarrow> ActiveSession \<times> event list" where
  "pin_cwd dir s =
     (if truthy_str dir \<and> \<not> cwdPinned s then
        (let s1 = s\<lparr>cwdPinned := True\<rparr>
         in if the dir \<noteq> cwd (info s1) then
              (let s2 = s1\<lparr>info := (info s1)\<lparr>cwd := the dir\<rparr>\<rparr>;
                   shell = detectShellKind (command (info s2))
               in (process_write (buildCwdCommand shell (the dir)) s2, [Updated (info s2)]))
            else (s1, []))
      else (s, []))"

text \<open>
  \<open>connect\<close> returns \<open>undefined\<close> (\<open>None\<close>) or the handlers \<open>onMessage\<close> and \<open>onClose\<close>,
  which are closures over the session object and the sink: \<open>Some (r, ws)\<close>.
\<close>

definition connect :: "string \<Rightarrow> nat \<Rightarrow> string option \<Rightarrow> pty_state \<Rightarrow> (nat \<times> nat) option \<times> pty_state" where
  "connect ident ws opt_directory st =
     (case Option.bind (sessions st ident) (\<lambda>r. map_option (Pair r) (heap st r)) of
        None \<Rightarrow> (None, st\<lparr>sinks := close ws (sinks st)\<rparr>)
      | Some (r, s) \<Rightarrow>
          (case pin_cwd (map_option trim opt_directory) (s\<lparr>subscribers := set_add ws (subscribers s)\<rparr>) of
             (s2, evs) \<Rightarrow>
               let st2 = st\<lparr>bus := bus st @ evs\<rparr>
               in if buffer s2 \<noteq> [] then
                    (let b = (if length (buffer s2) \<le> BUFFER_LIMIT then buffer s2
                              else slice_last BUFFER_LIMIT (buffer s2))
                     in case flush ws b 0 (sinks st2) of
                          (sk, True) \<Rightarrow>
                            (None, st2\<lparr>sinks := close ws sk,
                                       heap := (heap st2)(r \<mapsto> s2\<lparr>subscribers := set_delete ws (subscribers s2),
                                                                  buffer := b\<rparr>)\<rparr>)
                        | (sk, False) \<Rightarrow>
                            (Some (r, ws), st2\<lparr>sinks := sk, heap := (heap st2)(r \<mapsto> s2\<lparr>buffer := []\<rparr>)\<rparr>))
                  else (Some (r, ws), st2\<lparr>heap := (heap st2)(r \<mapsto> s2)\<rparr>)))"

datatype message = Text string | Binary

definition String :: "message \<Rightarrow> string" where
  "String m = (case m of Text t \<Rightarrow> t | Binary \<Rightarrow> ''[object ArrayBuffer]'')"

definition onMessage :: "nat \<Rightarrow> message \<Rightarrow> pty_state \<Rightarrow> pty_state" where
  "onMessage r m st =
     (case heap st r of
        None \<Rightarrow> st
      | Some s \<Rightarrow> st\<lparr>heap := (heap st)(r \<mapsto> process_write (String m) s)\<rparr>)"

definition onClose :: "nat \<Rightarrow> nat \<Rightarrow> pty_state \<Rightarrow> pty_state" where
  "onClose r ws st =
     (case heap st r of
        None \<Rightarrow> st
      | Some s \<Rightarrow> st\<lparr>heap := (heap st)(r \<mapsto> s\<lparr>subscribers := set_delete ws (subscribers s)\<rparr>)\<rparr>)"

subsection \<open>The states the multiplexer can be in\<close>

text \<open>
  The table starts empty. Between the operations the environment may change a sink's
  \<open>readyState\<close> and whether its \<open>send\<close> throws, never what it received. The handlers of a
  session exist once \<open>create\<close> made its object.
\<close>

definition init_state :: "(nat \<Rightarrow> sink) \<Rightarrow> pty_state" where
  "init_state sk = \<lparr>sessions = Map.empty, heap = Map.empty, nextRef = 0, sinks = sk,
                    heard = (\<lambda>_. []), bus = []\<rparr>"

definition env_sink :: "nat \<Rightarrow> nat \<Rightarrow> nat option \<Rightarrow> pty_state \<Rightarrow> pty_state" where
  "env_sink ws rs sb st = st\<lparr>sinks := (sinks st)(ws := (sinks st ws)\<lparr>readyState := rs, sendable := sb\<rparr>)\<rparr>"

inductive reachable :: "pty_state \<Rightarrow> bool" where
  r_init: "reachable (init_state sk)"
| r_env: "reachable st \<Longrightarrow> reachable (env_sink ws rs sb st)"
| r_create: "reachable st \<Longrightarrow> reachable (snd (create input env st))"
| r_onData: "reachable st \<Longrightarrow> reachable (fst (onData r d st))"
| r_onExit: "reachable st \<Longrightarrow> reachable (onExit r exitCode st)"
| r_update: "reachable st \<Longrightarrow> reachable (snd (update ident uin st))"
| r_remove: "reachable st \<Longrightarrow> reachable (remove ident st)"
| r_resize: "reachable st \<Longrightarrow> reachable (resize ident cols rows st)"
| r_write: "reachable st \<Longrightarrow> reachable (pty_write ident d st)"
| r_listen: "reachable st \<Longrightarrow> reachable (snd (listen ident l st))"
| r_unlisten: "reachable st \<Longrightarrow> reachable (unlisten r l st)"
| r_connect: "reachable st \<Longrightarrow> reachable (snd (connect ident ws dir st))"
| r_onMessage: "reachable st \<Longrightarrow> reachable (onMessage r m st)"
| r_onClose: "reachable st \<Longrightarrow> reachable (onClose r ws st)"

subsection \<open>Invariants of the session store\<close>

definition inv_buf :: "pty_state \<Rightarrow> bool" where
  "inv_buf st = (\<forall>r s. heap st r = Some s \<longrightarrow> length (buffer s) \<le> BUFFER_LIMIT)"

definition inv_sub :: "pty_state \<Rightarrow> bool" where
  "inv_sub st = (\<forall>r s. heap st r = Some s \<longrightarrow> distinct (subscribers s))"

definition inv_table :: "pty_state \<Rightarrow> bool" where
  "inv_table st =
     ((\<forall>i r. sessions st i = Some r \<longrightarrow>
          (\<exists>s. heap st r = Some s \<and> status (info s) = Running \<and> pty_id (info s) = i))
      \<and> (\<forall>r. nextRef st \<le> r \<longrightarrow> heap st r = None))"



subsection \<open>Example states\<close>

text \<open>
  A session of a login shell; three chunks of output before anybody connects; a sink and a
  listener attached.
\<close>

definition sk0 :: "nat \<Rightarrow> sink" where
  "sk0 = (\<lambda>_. \<lparr>readyState = 1, sendable = None, received = [], closeCalled = False\<rparr>)"

definition ex_input :: CreateInput where
  "ex_input = \<lparr>in_command = Some ''/bin/bash'', in_args = None, in_cwd = None, in_title = None\<rparr>"

definition ex_env :: spawn_env where
  "ex_env = \<lparr>new_id = ''pty_0001'', preferred = ''/bin/sh'', directory = ''/work'', new_pid = 42\<rparr>"

definition st_created :: pty_state where
  "st_created = snd (create ex_input ex_env (init_state sk0))"

definition st_joined :: pty_state where
  "st_joined = snd (listen ''pty_0001'' 3 (snd (connect ''pty_0001'' 7 None st_created)))"

definition st_abc :: pty_state where
  "st_abc = fst (onData 0 ''ABC'' st_created)"


section \<open>JSON values\<close>

text \<open>
  The values \<open>JSON.parse\<close> produces. An object is the list of its members in the order of
  their first appearance. A number is kept as the lexeme the text had: the platform reads
  it as a double and \<open>JSON.stringify\<close> prints the shortest decimal of that double, which
  for a plain integer or decimal of few digits is the lexeme again. \<open>None\<close> of type
  \<open>json option\<close> is \<open>undefined\<close>.
\<close>

datatype json =
    JNull
  | JBool bool
  | JNumber string
  | JString string
  | JArray "json list"
  | JObject "(string \<times> json) list"

text \<open>
  \<open>mergeDeep\<close>, \<open>pickBy\<close>, \<open>mapValues\<close> and \<open>omit\<close> of the remeda library, on objects:
  \<open>mergeDeep\<close> keeps the keys of the destination in place, takes the value of the source
  where both have the key (merging again when both values are plain objects), and appends
  the keys only the source has.
\<close>

function mergeDeep :: "(string \<times> json) list \<Rightarrow> (string \<times> json) list \<Rightarrow> (string \<times> json) list" where
  "mergeDeep dest src =
     map (\<lambda>(k, dv).
            (k, case map_of src k of
                  None \<Rightarrow> dv
                | Some sv \<Rightarrow>
                    (case dv of
                       JObject d \<Rightarrow> (case sv of JObject s \<Rightarrow> JObject (mergeDeep d s) | _ \<Rightarrow> sv)
                     | _ \<Rightarrow> sv))) dest
     @ filter (\<lambda>(k, sv). map_of dest k = None) src"
  by pat_completeness auto
termination
proof (relation "measure (\<lambda>(dest, src). size_list (size_prod (\<lambda>_. 0) size) dest)", goal_cases)
  case 1
  show ?case by simp
next
  case (2 dest src x k dv sv d s)
  have m: "(a, v) \<in> set xs \<Longrightarrow> size v \<le> size_list (size_prod (\<lambda>_. 0) size) xs"
    for a :: string and v :: json and xs
    by (induction xs) auto
  from 2 have "(k, JObject d) \<in> set dest" by simp
  from m[OF this] show ?case by simp
qed

definition num_is_zero :: "string \<Rightarrow> bool" where
  "num_is_zero lx = list_all (\<lambda>c. c \<in> set ''-0.'') (takeWhile (\<lambda>c. c \<noteq> CHR ''e'' \<and> c \<noteq> CHR ''E'') lx)"

fun truthy :: "json \<Rightarrow> bool" where
  "truthy JNull = False"
| "truthy (JBool b) = b"
| "truthy (JNumber lx) = (\<not> num_is_zero lx)"
| "truthy (JString s) = (s \<noteq> [])"
| "truthy (JArray _) = True"
| "truthy (JObject _) = True"

definition get_prop :: "json \<Rightarrow> string \<Rightarrow> json option" where
  "get_prop v k = (case v of JObject fs \<Rightarrow> map_of fs k | _ \<Rightarrow> None)"

definition pickBy :: "(json \<Rightarrow> bool) \<Rightarrow> (string \<times> json) list \<Rightarrow> (string \<times> json) list" where
  "pickBy p fs = filter (\<lambda>(k, v). p v) fs"

definition mapValues :: "('a \<Rightarrow> 'b) \<Rightarrow> (string \<times> 'a) list \<Rightarrow> (string \<times> 'b) list" where
  "mapValues f fs = map (\<lambda>(k, v). (k, f v)) fs"

definition omit :: "json \<Rightarrow> string list \<Rightarrow> json" where
  "omit v ks = (case v of JObject fs \<Rightarrow> JObject (filter (\<lambda>(k, _). k \<notin> set ks) fs) | _ \<Rightarrow> v)"

definition is_disabled :: "json \<Rightarrow> bool" where
  "is_disabled v = (case get_prop v ''disabled'' of Some d \<Rightarrow> truthy d | None \<Rightarrow> False)"

definition prune_variants :: "(string \<times> json) list \<Rightarrow> (string \<times> json) list \<Rightarrow> (string \<times> json) list" where
  "prune_variants mv cv =
     mapValues (\<lambda>v. omit v [''disabled'']) (pickBy (\<lambda>v. \<not> is_disabled v) (mergeDeep mv cv))"

section \<open>Model registry\<close>

text \<open>
  The fields of a model and of a provider that the filter pass of \<open>Provider.state\<close> and
  \<open>getModel\<close> read or write. A JavaScript object with string keys is an association list
  in insertion order; \<open>delete\<close> removes the entry. \<open>experimental\<close> below is
  \<open>Flag.OPENCODE_ENABLE_EXPERIMENTAL_MODELS\<close>.
\<close>

datatype model_status = Alpha | Beta | Active | Deprecated

record Model =
  model_id :: "string option"
  providerID :: string
  api_id :: "string option"
  api_npm :: string
  model_status :: model_status
  variants :: "(string \<times> json) list option"

datatype source_kind = SrcEnv | SrcConfig | SrcCustom | SrcApi

record ProviderInfo =
  provider_id :: string
  provider_name :: string
  provider_source :: source_kind
  provider_env :: "string list"
  provider_key :: "string option"
  models :: "(string \<times> Model) list"

record ConfigProvider =
  blacklist :: "string list option"
  whitelist :: "string list option"
  cfg_variants :: "string \<rightharpoonup> (string \<times> json) list"

record Config =
  disabled_providers :: "string list option"
  enabled_providers :: "string list option"
  cfg_provider :: "string \<rightharpoonup> ConfigProvider"

definition isProviderAllowed :: "Config \<Rightarrow> string \<Rightarrow> bool" where
  "isProviderAllowed config pID =
     (if (case enabled_providers config of Some en \<Rightarrow> pID \<notin> set en | None \<Rightarrow> False) then False
      else if pID \<in> set (case disabled_providers config of Some ds \<Rightarrow> ds | None \<Rightarrow> []) then False
      else True)"

text \<open>
  One turn of the loop over \<open>Object.entries(provider.models)\<close>: whether one of its four
  \<open>delete provider.models[modelID]\<close> runs, and what the turn writes into the model.
\<close>

definition model_deleted :: "bool \<Rightarrow> string \<Rightarrow> ConfigProvider option \<Rightarrow> string \<Rightarrow> Model \<Rightarrow> bool" where
  "model_deleted experimental pID configProvider modelID model =
     ((modelID = ''gpt-5-chat-latest'' \<or> (pID = ''openrouter'' \<and> modelID = ''openai/gpt-5-chat''))
      \<or> (model_status model = Alpha \<and> \<not> experimental)
      \<or> model_status model = Deprecated
      \<or> ((case Option.bind configProvider blacklist of Some bl \<Rightarrow> modelID \<in> set bl | None \<Rightarrow> False)
          \<or> (case Option.bind configProvider whitelist of Some wl \<Rightarrow> modelID \<notin> set wl | None \<Rightarrow> False)))"

definition model_updated :: "ConfigProvider option \<Rightarrow> string \<Rightarrow> Model \<Rightarrow> Model" where
  "model_updated configProvider modelID model =
     (let m1 = model\<lparr>api_id := Some (case api_id model of Some a \<Rightarrow> a
                                       | None \<Rightarrow> (case model_id model of Some i \<Rightarrow> i | None \<Rightarrow> modelID))\<rparr>
      in case Option.bind configProvider (\<lambda>cp. cfg_variants cp modelID) of
           None \<Rightarrow> m1
         | Some configVariants \<Rightarrow>
             (case variants m1 of
                None \<Rightarrow> m1
              | Some mv \<Rightarrow> m1\<lparr>variants := Some (prune_variants mv configVariants)\<rparr>))"

definition filter_models :: "bool \<Rightarrow> string \<Rightarrow> ConfigProvider option \<Rightarrow> (string \<times> Model) list \<Rightarrow> (string \<times> Model) list" where
  "filter_models experimental pID configProvider ms =
     map (\<lambda>(modelID, model). (modelID, model_updated configProvider modelID model))
       (filter (\<lambda>(modelID, model). \<not> model_deleted experimental pID configProvider modelID model) ms)"

definition filter_provider :: "bool \<Rightarrow> Config \<Rightarrow> string \<Rightarrow> ProviderInfo \<Rightarrow> ProviderInfo option" where
  "filter_provider experimental config pID provider =
     (if \<not> isProviderAllowed config pID then None
      else
        let ms0 = (if pID = ''github-copilot'' \<or> pID = ''github-copilot-enterprise''
                   then mapValues (\<lambda>model. model\<lparr>api_npm := ''@ai-sdk/github-copilot''\<rparr>) (models provider)
                   else models provider);
            ms1 = filter_models experimental pID (cfg_provider config pID) ms0
        in if length ms1 = 0 then None else Some (provider\<lparr>models := ms1\<rparr>))"

definition filter_pass :: "bool \<Rightarrow> Config \<Rightarrow> (string \<times> ProviderInfo) list \<Rightarrow> (string \<times> ProviderInfo) list" where
  "filter_pass experimental config provs =
     List.map_filter (\<lambda>(pID, provider). map_option (Pair pID) (filter_provider experimental config pID provider))
       provs"


datatype provider_error =
    ModelNotFoundError string string "string list"
  | InitError string



section \<open>JSON text\<close>

text \<open>
  \<open>JSON.parse\<close> of the platform, for the grammar of ECMA-404: a lexer that reads the text
  one code unit at a time, and a parser that reads the tokens with a stack of the open
  arrays and objects. \<open>None\<close> is the \<open>SyntaxError\<close> that \<open>JSON.parse\<close> throws. A repeated
  key keeps its first place and takes the last value. A unicode escape of four hex digits
  is the code unit they name, kept below 256 as \<open>char\<close> is.
\<close>

datatype token =
    TLBrace | TRBrace | TLBrack | TRBrack | TColon | TComma
  | TString string | TNumber string | TLiteral json

datatype numstate = NMinus | NZero | NInt | NDot | NFrac | NE | NESign | NExp

datatype lexstate =
    LIdle
  | LStr string
  | LEsc string
  | LUni string "nat list"
  | LNum numstate string
  | LLit string json

definition is_digit :: "char \<Rightarrow> bool" where
  "is_digit c = (48 \<le> (of_char c :: nat) \<and> (of_char c :: nat) \<le> 57)"

definition hex_val :: "char \<Rightarrow> nat option" where
  "hex_val c =
     (let n = (of_char c :: nat)
      in if 48 \<le> n \<and> n \<le> 57 then Some (n - 48)
         else if 97 \<le> n \<and> n \<le> 102 then Some (n - 87)
         else if 65 \<le> n \<and> n \<le> 70 then Some (n - 55)
         else None)"

definition num_accepting :: "numstate \<Rightarrow> bool" where
  "num_accepting ns = (ns \<in> {NZero, NInt, NFrac, NExp})"

definition num_step :: "numstate \<Rightarrow> char \<Rightarrow> numstate option" where
  "num_step ns c =
     (case ns of
        NMinus \<Rightarrow> if c = CHR ''0'' then Some NZero else if is_digit c then Some NInt else None
      | NZero \<Rightarrow> if c = CHR ''.'' then Some NDot else if c = CHR ''e'' \<or> c = CHR ''E'' then Some NE else None
      | NInt \<Rightarrow> if is_digit c then Some NInt else if c = CHR ''.'' then Some NDot
                else if c = CHR ''e'' \<or> c = CHR ''E'' then Some NE else None
      | NDot \<Rightarrow> if is_digit c then Some NFrac else None
      | NFrac \<Rightarrow> if is_digit c then Some NFrac else if c = CHR ''e'' \<or> c = CHR ''E'' then Some NE else None
      | NE \<Rightarrow> if c = CHR ''+'' \<or> c = CHR ''-'' then Some NESign else if is_digit c then Some NExp else None
      | NESign \<Rightarrow> if is_digit c then Some NExp else None
      | NExp \<Rightarrow> if is_digit c then Some NExp else None)"

definition idle_step :: "char \<Rightarrow> token list \<Rightarrow> (lexstate \<times> token list) option" where
  "idle_step c toks =
     (if c \<in> set [CHR 0x20, CHR 0x09, CHR 0x0A, CHR 0x0D] then Some (LIdle, toks)
      else if c = CHR ''{'' then Some (LIdle, TLBrace # toks)
      else if c = CHR ''}'' then Some (LIdle, TRBrace # toks)
      else if c = CHR ''['' then Some (LIdle, TLBrack # toks)
      else if c = CHR '']'' then Some (LIdle, TRBrack # toks)
      else if c = CHR '':'' then Some (LIdle, TColon # toks)
      else if c = CHR '','' then Some (LIdle, TComma # toks)
      else if c = CHR 0x22 then Some (LStr [], toks)
      else if c = CHR ''-'' then Some (LNum NMinus [c], toks)
      else if c = CHR ''0'' then Some (LNum NZero [c], toks)
      else if is_digit c then Some (LNum NInt [c], toks)
      else if c = CHR ''t'' then Some (LLit ''rue'' (JBool True), toks)
      else if c = CHR ''f'' then Some (LLit ''alse'' (JBool False), toks)
      else if c = CHR ''n'' then Some (LLit ''ull'' JNull, toks)
      else None)"

definition unescape :: "char \<Rightarrow> char option" where
  "unescape c =
     (if c = CHR 0x22 \<or> c = CHR 0x5C \<or> c = CHR ''/'' then Some c
      else if c = CHR ''b'' then Some (CHR 0x08)
      else if c = CHR ''f'' then Some (CHR 0x0C)
      else if c = CHR ''n'' then Some (CHR 0x0A)
      else if c = CHR ''r'' then Some (CHR 0x0D)
      else if c = CHR ''t'' then Some (CHR 0x09)
      else None)"

fun lex_step :: "lexstate \<times> token list \<Rightarrow> char \<Rightarrow> (lexstate \<times> token list) option" where
  "lex_step (LIdle, toks) c = idle_step c toks"
| "lex_step (LStr acc, toks) c =
     (if c = CHR 0x22 then Some (LIdle, TString (rev acc) # toks)
      else if c = CHR 0x5C then Some (LEsc acc, toks)
      else if (of_char c :: nat) < 32 then None
      else Some (LStr (c # acc), toks))"
| "lex_step (LEsc acc, toks) c =
     (if c = CHR ''u'' then Some (LUni acc [], toks)
      else map_option (\<lambda>e. (LStr (e # acc), toks)) (unescape c))"
| "lex_step (LUni acc hs, toks) c =
     (case hex_val c of
        None \<Rightarrow> None
      | Some h \<Rightarrow>
          if length hs < 3 then Some (LUni acc (hs @ [h]), toks)
          else Some (LStr (char_of (foldl (\<lambda>n d. 16 * n + d) 0 (hs @ [h])) # acc), toks))"
| "lex_step (LNum ns lx, toks) c =
     (case num_step ns c of
        Some ns' \<Rightarrow> Some (LNum ns' (c # lx), toks)
      | None \<Rightarrow> if num_accepting ns then idle_step c (TNumber (rev lx) # toks) else None)"
| "lex_step (LLit rest v, toks) c =
     (case rest of
        [] \<Rightarrow> None
      | x # xs \<Rightarrow> if c \<noteq> x then None
                  else if xs = [] then Some (LIdle, TLiteral v # toks)
                  else Some (LLit xs v, toks))"

fun lex_run :: "lexstate \<times> token list \<Rightarrow> string \<Rightarrow> (lexstate \<times> token list) option" where
  "lex_run st [] = Some st"
| "lex_run st (c # cs) = (case lex_step st c of None \<Rightarrow> None | Some st' \<Rightarrow> lex_run st' cs)"

definition tokenize :: "string \<Rightarrow> token list option" where
  "tokenize s =
     (case lex_run (LIdle, []) s of
        None \<Rightarrow> None
      | Some (LIdle, toks) \<Rightarrow> Some (rev toks)
      | Some (LNum ns lx, toks) \<Rightarrow> if num_accepting ns then Some (rev (TNumber (rev lx) # toks)) else None
      | Some _ \<Rightarrow> None)"

datatype frame = FArr "json list" | FObj "(string \<times> json) list" string

datatype pmode = PValue | PValueOrEnd | PKeyOrEnd | PKey | PColon | PAfter | PDone json

definition obj_put :: "string \<Rightarrow> json \<Rightarrow> (string \<times> json) list \<Rightarrow> (string \<times> json) list" where
  "obj_put k v ms =
     (if k \<in> fst ` set ms then map (\<lambda>(k', v'). if k' = k then (k', v) else (k', v')) ms else ms @ [(k, v)])"

definition complete :: "json \<Rightarrow> frame list \<Rightarrow> pmode \<times> frame list" where
  "complete v stack =
     (case stack of
        [] \<Rightarrow> (PDone v, [])
      | FArr xs # fs \<Rightarrow> (PAfter, FArr (xs @ [v]) # fs)
      | FObj ms k # fs \<Rightarrow> (PAfter, FObj (obj_put k v ms) k # fs))"

definition value_token :: "token \<Rightarrow> frame list \<Rightarrow> (pmode \<times> frame list) option" where
  "value_token t stack =
     (case t of
        TString s \<Rightarrow> Some (complete (JString s) stack)
      | TNumber lx \<Rightarrow> Some (complete (JNumber lx) stack)
      | TLiteral v \<Rightarrow> Some (complete v stack)
      | TLBrack \<Rightarrow> Some (PValueOrEnd, FArr [] # stack)
      | TLBrace \<Rightarrow> Some (PKeyOrEnd, FObj [] [] # stack)
      | _ \<Rightarrow> None)"

definition close_array :: "frame list \<Rightarrow> (pmode \<times> frame list) option" where
  "close_array stack = (case stack of FArr xs # fs \<Rightarrow> Some (complete (JArray xs) fs) | _ \<Rightarrow> None)"

definition close_object :: "frame list \<Rightarrow> (pmode \<times> frame list) option" where
  "close_object stack = (case stack of FObj ms k # fs \<Rightarrow> Some (complete (JObject ms) fs) | _ \<Rightarrow> None)"

definition key_token :: "token \<Rightarrow> frame list \<Rightarrow> (pmode \<times> frame list) option" where
  "key_token t stack =
     (case (t, stack) of
        (TString k, FObj ms _ # fs) \<Rightarrow> Some (PColon, FObj ms k # fs)
      | _ \<Rightarrow> None)"

fun parse_step :: "pmode \<times> frame list \<Rightarrow> token \<Rightarrow> (pmode \<times> frame list) option" where
  "parse_step (PValue, stack) t = value_token t stack"
| "parse_step (PValueOrEnd, stack) t = (if t = TRBrack then close_array stack else value_token t stack)"
| "parse_step (PKeyOrEnd, stack) t = (if t = TRBrace then close_object stack else key_token t stack)"
| "parse_step (PKey, stack) t = key_token t stack"
| "parse_step (PColon, stack) t = (if t = TColon then Some (PValue, stack) else None)"
| "parse_step (PAfter, stack) t =
     (case stack of
        FArr xs # fs \<Rightarrow> if t = TComma then Some (PValue, stack)
                         else if t = TRBrack then close_array stack else None
      | FObj ms k # fs \<Rightarrow> if t = TComma then Some (PKey, stack)
                           else if t = TRBrace then close_object stack else None
      | [] \<Rightarrow> None)"
| "parse_step (PDone v, stack) t = None"

fun parse_run :: "pmode \<times> frame list \<Rightarrow> token list \<Rightarrow> (pmode \<times> frame list) option" where
  "parse_run st [] = Some st"
| "parse_run st (t # ts) = (case parse_step st t of None \<Rightarrow> None | Some st' \<Rightarrow> parse_run st' ts)"

definition JSON_parse :: "string \<Rightarrow> json option" where
  "JSON_parse s =
     (case tokenize s of
        None \<Rightarrow> None
      | Some ts \<Rightarrow> (case parse_run (PValue, []) ts of Some (PDone v, _) \<Rightarrow> Some v | _ \<Rightarrow> None))"

text \<open>\<open>JSON.stringify\<close> of a value of \<open>JSON.parse\<close>, without indentation.\<close>

definition hex_digit :: "nat \<Rightarrow> char" where
  "hex_digit n = ''0123456789abcdef'' ! (n mod 16)"

definition quote_char :: "char \<Rightarrow> string" where
  "quote_char c =
     (if c = CHR 0x22 then [CHR 0x5C, CHR 0x22]
      else if c = CHR 0x5C then [CHR 0x5C, CHR 0x5C]
      else if c = CHR 0x08 then [CHR 0x5C, CHR ''b'']
      else if c = CHR 0x0C then [CHR 0x5C, CHR ''f'']
      else if c = CHR 0x0A then [CHR 0x5C, CHR ''n'']
      else if c = CHR 0x0D then [CHR 0x5C, CHR ''r'']
      else if c = CHR 0x09 then [CHR 0x5C, CHR ''t'']
      else if (of_char c :: nat) < 32
        then [CHR 0x5C] @ ''u00'' @ [hex_digit (of_char c div 16), hex_digit (of_char c mod 16)]
      else [c])"

definition quote :: "string \<Rightarrow> string" where
  "quote s = [CHR 0x22] @ concat (map quote_char s) @ [CHR 0x22]"

fun join :: "string \<Rightarrow> string list \<Rightarrow> string" where
  "join sep [] = []"
| "join sep [x] = x"
| "join sep (x # y # ys) = x @ sep @ join sep (y # ys)"

fun JSON_stringify :: "json \<Rightarrow> string" where
  "JSON_stringify JNull = ''null''"
| "JSON_stringify (JBool b) = (if b then ''true'' else ''false'')"
| "JSON_stringify (JNumber lx) = lx"
| "JSON_stringify (JString s) = quote s"
| "JSON_stringify (JArray xs) = ''['' @ join '','' (map JSON_stringify xs) @ '']''"
| "JSON_stringify (JObject ms) =
     ''{'' @ join '','' (map (\<lambda>kv. quote (fst kv) @ '':'' @ JSON_stringify (snd kv)) ms) @ ''}''"

section \<open>Prompt-mode tool calling of the Ollama adapter\<close>

text \<open>
  A property read \<open>v.k\<close> throws \<open>TypeError\<close> when \<open>v\<close> is \<open>undefined\<close> or \<open>null\<close>; the
  optional read \<open>v?.k\<close> gives \<open>undefined\<close> there. Both give the own member of an object
  and \<open>undefined\<close> for the keys read here on any other value. The functions below that
  read properties return \<open>js_error + 'a\<close>, with \<open>Inl\<close> for the exception.
\<close>

datatype js_error = TypeError

definition bindE :: "'err + 'v \<Rightarrow> ('v \<Rightarrow> 'err + 'w) \<Rightarrow> 'err + 'w" where
  "bindE m f = (case m of Inl err \<Rightarrow> Inl err | Inr v \<Rightarrow> f v)"

fun mapE :: "('v \<Rightarrow> 'err + 'w) \<Rightarrow> 'v list \<Rightarrow> 'err + 'w list" where
  "mapE f [] = Inr []"
| "mapE f (x # xs) = bindE (f x) (\<lambda>y. bindE (mapE f xs) (\<lambda>ys. Inr (y # ys)))"

definition opt_prop :: "json option \<Rightarrow> string \<Rightarrow> json option" where
  "opt_prop v k = (case v of Some (JObject fs) \<Rightarrow> map_of fs k | _ \<Rightarrow> None)"

definition dot :: "json option \<Rightarrow> string \<Rightarrow> js_error + json option" where
  "dot v k =
     (case v of
        None \<Rightarrow> Inl TypeError
      | Some JNull \<Rightarrow> Inl TypeError
      | Some (JObject fs) \<Rightarrow> Inr (map_of fs k)
      | Some _ \<Rightarrow> Inr None)"

definition nullish :: "json option \<Rightarrow> bool" where
  "nullish v = (v = None \<or> v = Some JNull)"

definition coalesce :: "json option \<Rightarrow> json option \<Rightarrow> json option" where
  "coalesce a b = (if nullish a then b else a)"

definition coalesceE :: "js_error + json option \<Rightarrow> js_error + json option \<Rightarrow> js_error + json option" where
  "coalesceE a b = bindE a (\<lambda>x. if nullish x then b else Inr x)"

definition is_string :: "json option \<Rightarrow> bool" where
  "is_string v = (case v of Some (JString _) \<Rightarrow> True | _ \<Rightarrow> False)"

definition truthy_opt :: "json option \<Rightarrow> bool" where
  "truthy_opt v = (case v of None \<Rightarrow> False | Some x \<Rightarrow> truthy x)"

definition val_of :: "json option \<Rightarrow> json" where
  \<comment> \<open>a value known not to be \<open>undefined\<close>\<close>
  "val_of v = (case v of Some x \<Rightarrow> x | None \<Rightarrow> JNull)"

definition str_of :: "json option \<Rightarrow> string" where
  "str_of v = (case v of Some (JString s) \<Rightarrow> s | _ \<Rightarrow> [])"

text \<open>
  \<open>extractJson\<close>: \<open>json_slice\<close> is the substring handed to \<open>JSON.parse\<close>, and the
  \<open>try\<close>/\<open>catch\<close> around \<open>JSON.parse\<close> turns its exception into \<open>undefined\<close>.
\<close>

definition indexOf :: "string \<Rightarrow> char \<Rightarrow> nat option" where
  "indexOf s c = (if c \<in> set s then Some (length (takeWhile (\<lambda>x. x \<noteq> c) s)) else None)"

definition lastIndexOf :: "string \<Rightarrow> char \<Rightarrow> nat option" where
  "lastIndexOf s c =
     (if c \<in> set s then Some (length s - 1 - length (takeWhile (\<lambda>x. x \<noteq> c) (rev s))) else None)"

definition json_slice :: "string \<Rightarrow> string option" where
  "json_slice text =
     (let trimmed = trim text
      in if trimmed = [] then None
         else case (indexOf trimmed (CHR ''{''), lastIndexOf trimmed (CHR ''}'')) of
                (Some start, Some endIdx) \<Rightarrow>
                   if endIdx \<le> start then None else Some (slice trimmed start (endIdx + 1))
              | _ \<Rightarrow> None)"

definition extractJson :: "string \<Rightarrow> json option" where
  "extractJson text = Option.bind (json_slice text) JSON_parse"

definition string_prop :: "json option \<Rightarrow> string \<Rightarrow> js_error + json option" where
  "string_prop v k = (if is_string (opt_prop v k) then dot v k else Inr None)"

text \<open>
  The callback of \<open>toolCalls.map\<close> in \<open>parsePromptToolCall\<close>, and the same entry read
  without exceptions (\<open>named\<close>), which the theorems use to say what an entry yields.
\<close>

definition call_of :: "json \<Rightarrow> js_error + (string \<times> json) option" where
  "call_of call =
     bindE (if is_string (opt_prop (Some call) ''name'') then dot (Some call) ''name''
            else if is_string (opt_prop (Some call) ''tool'') then dot (Some call) ''tool''
            else Inr None)
       (\<lambda>name.
          let args = coalesce (coalesce (coalesce (opt_prop (Some call) ''arguments'')
                                           (opt_prop (Some call) ''args''))
                                 (opt_prop (Some call) ''input''))
                       (Some (JObject []))
          in if \<not> truthy_opt name then Inr None else Inr (Some (str_of name, val_of args)))"

definition named :: "json \<Rightarrow> (string \<times> json) option" where
  "named call =
     (let name = (if is_string (opt_prop (Some call) ''name'') then opt_prop (Some call) ''name''
                  else if is_string (opt_prop (Some call) ''tool'') then opt_prop (Some call) ''tool''
                  else None);
          args = coalesce (coalesce (coalesce (opt_prop (Some call) ''arguments'')
                                       (opt_prop (Some call) ''args''))
                             (opt_prop (Some call) ''input''))
                   (Some (JObject []))
      in if \<not> truthy_opt name then None else Some (str_of name, val_of args))"

datatype parsed_call = Tool "(string \<times> json) list" | Final string

definition root_of :: "string \<Rightarrow> json option" where
  "root_of text = (let json = extractJson text in coalesce (opt_prop json ''opencode'') json)"

definition toolCalls_of :: "json option \<Rightarrow> json option" where
  "toolCalls_of root =
     coalesce (coalesce (opt_prop root ''tool_calls'') (opt_prop root ''toolCalls'')) (opt_prop root ''toolcalls'')"

definition calls_of :: "json option \<Rightarrow> js_error + (string \<times> json) list" where
  "calls_of toolCalls =
     (case toolCalls of
        Some (JArray cs) \<Rightarrow>
          if length cs > 0 then bindE (mapE call_of cs) (\<lambda>rs. Inr (List.map_filter id rs)) else Inr []
      | _ \<Rightarrow> Inr [])"

definition finalText_of :: "json option \<Rightarrow> js_error + json option" where
  "finalText_of root =
     coalesceE (coalesceE (string_prop root ''final'') (string_prop root ''content''))
       (string_prop root ''text'')"

definition parsePromptToolCall :: "string \<Rightarrow> js_error + parsed_call" where
  "parsePromptToolCall text =
     (let root = root_of text;
          toolCalls = toolCalls_of root
      in bindE (calls_of toolCalls)
           (\<lambda>calls.
              if length calls > 0 then Inr (Tool calls)
              else bindE (finalText_of root)
                     (\<lambda>finalText. if is_string finalText then Inr (Final (str_of finalText))
                                   else Inr (Final text))))"

text \<open>
  The spec's words for the extraction, to compare with \<open>json_slice\<close>: the first balanced
  \<open>{...}\<close> substring, from the first \<open>{\<close> to the \<open>}\<close> that closes it.
\<close>

fun balanced_prefix :: "nat \<Rightarrow> string \<Rightarrow> string option" where
  "balanced_prefix d [] = None"
| "balanced_prefix d (c # cs) =
     (if c = CHR ''{'' then map_option ((#) c) (balanced_prefix (Suc d) cs)
      else if c = CHR ''}'' then
        (if d \<le> 1 then Some [c] else map_option ((#) c) (balanced_prefix (d - 1) cs))
      else map_option ((#) c) (balanced_prefix d cs))"

definition first_balanced :: "string \<Rightarrow> string option" where
  "first_balanced text = balanced_prefix 0 (dropWhile (\<lambda>c. c \<noteq> CHR ''{'') text)"

text \<open>
  \<open>doGenerate\<close> and \<open>doStream\<close> of \<open>OllamaChatModel\<close> after the HTTP call: the response is
  its \<open>ok\<close> flag, its status and its body (\<open>None\<close>: \<open>response.body\<close> is null), the body as
  the list of the decoded chunks that \<open>reader.read()\<close> yields. \<open>uuid i\<close> is what the
  \<open>i\<close>-th call of \<open>crypto.randomUUID()\<close> returns. Of the result, the content parts (or the
  stream parts) and the finish reason are modelled; usage, request and response metadata are
  not.
\<close>

datatype finish_reason = Stop | ToolCalls | Length | ContentFilter | ErrorReason | Unknown

datatype content_part = TextPart string | ToolCallPart string string string

datatype call_error = APICallError nat bool | Thrown js_error

record http_response =
  ok :: bool
  status_code :: nat
  body :: "string list option"

definition shouldPromptToolCall :: "bool \<Rightarrow> json option \<Rightarrow> bool" where
  "shouldPromptToolCall promptToolCall tools =
     (promptToolCall \<and> truthy_opt tools \<and> (case tools of Some (JArray xs) \<Rightarrow> length xs > 0 | _ \<Rightarrow> True))"

definition tool_call_parts :: "(nat \<Rightarrow> string) \<Rightarrow> (string \<times> json) list \<Rightarrow> (string \<times> string \<times> string) list" where
  "tool_call_parts uuid calls =
     map (\<lambda>(i, call). (uuid i, fst call, JSON_stringify (snd call))) (enumerate 0 calls)"

definition message_content :: "json option \<Rightarrow> js_error + json option" where
  "message_content parsed =
     (if truthy_opt (opt_prop parsed ''message'')
      then bindE (bindE (dot parsed ''message'') (\<lambda>m. dot m ''content''))
             (\<lambda>c. if is_string c
                   then bindE (dot parsed ''message'') (\<lambda>m. dot m ''content'')
                   else Inr None)
      else Inr None)"

definition thrown :: "js_error + 'a \<Rightarrow> call_error + 'a" where
  "thrown m = (case m of Inl e \<Rightarrow> Inl (Thrown e) | Inr x \<Rightarrow> Inr x)"

definition response_text :: "json option \<Rightarrow> js_error + string" where
  "response_text parsed =
     bindE (coalesceE (message_content parsed)
              (if is_string (opt_prop parsed ''response'') then dot parsed ''response''
               else Inr (Some (JString []))))
       (\<lambda>t. Inr (str_of (coalesce t (Some (JString [])))))"

definition doGenerate :: "bool \<Rightarrow> (nat \<Rightarrow> string) \<Rightarrow> http_response \<Rightarrow> call_error + content_part list \<times> finish_reason" where
  "doGenerate prompt_mode uuid response =
     (let rawText = concat (case body response of Some cs \<Rightarrow> cs | None \<Rightarrow> [])
      in if \<not> ok response then Inl (APICallError (status_code response) (status_code response \<ge> 500))
         else
           let parsed = JSON_parse rawText
           in bindE (thrown (response_text parsed))
                (\<lambda>text. if prompt_mode then
                           bindE (thrown (parsePromptToolCall text))
                             (\<lambda>parsedToolCall.
                                case parsedToolCall of
                                  Tool calls \<Rightarrow>
                                    Inr (map (\<lambda>(i, n, a). ToolCallPart i n a) (tool_call_parts uuid calls),
                                         ToolCalls)
                                | Final ft \<Rightarrow> Inr ([TextPart ft], Stop))
                       else Inr ([TextPart text], Stop)))"

datatype stream_part =
    StreamStart
  | TextStart string
  | TextDelta string string
  | TextEnd string
  | ToolCall string string string
  | Finish finish_reason
  | ErrorPart
  | Raw string

record stream_state =
  parts :: "stream_part list"
  buf :: string
  fullText :: string
  currentTextId :: "string option"
  finishReason :: finish_reason
  isDone :: bool

text \<open>\<open>s.split("\n")\<close>: never empty; \<open>lines.pop()\<close> takes its last element.\<close>

fun split_nl :: "string \<Rightarrow> string list" where
  "split_nl [] = [[]]"
| "split_nl (c # cs) =
     (if c = CHR 0x0A then [] # split_nl cs
      else (case split_nl cs of x # xs \<Rightarrow> (c # x) # xs | [] \<Rightarrow> [[c]]))"

definition enqueue :: "stream_part \<Rightarrow> stream_state \<Rightarrow> stream_state" where
  "enqueue p st = st\<lparr>parts := parts st @ [p]\<rparr>"

definition chunk_delta :: "json \<Rightarrow> js_error + json option" where
  "chunk_delta chunk =
     coalesceE (message_content (Some chunk))
       (if is_string (opt_prop (Some chunk) ''response'') then dot (Some chunk) ''response'' else Inr None)"

definition on_delta :: "bool \<Rightarrow> json option \<Rightarrow> stream_state \<Rightarrow> stream_state" where
  "on_delta prompt_mode delta st =
     (if \<not> truthy_opt delta then st
      else if prompt_mode then st\<lparr>fullText := fullText st @ str_of delta\<rparr>
      else
        (let st' = (case currentTextId st of
                      None \<Rightarrow> enqueue (TextStart ''ollama-text'') (st\<lparr>currentTextId := Some ''ollama-text''\<rparr>)
                    | Some _ \<Rightarrow> st)
         in enqueue (TextDelta (case currentTextId st' of Some i \<Rightarrow> i | None \<Rightarrow> []) (str_of delta)) st'))"

definition on_line :: "bool \<Rightarrow> bool \<Rightarrow> string \<Rightarrow> stream_state \<Rightarrow> js_error + stream_state" where
  "on_line prompt_mode includeRawChunks line st =
     (let trimmed = trim line
      in if trimmed = [] then Inr st
         else
           let st1 = (if includeRawChunks then enqueue (Raw trimmed) st else st)
           in case JSON_parse trimmed of
                None \<Rightarrow> Inr (enqueue ErrorPart (st1\<lparr>finishReason := ErrorReason\<rparr>))
              | Some chunk \<Rightarrow>
                  bindE (chunk_delta chunk)
                    (\<lambda>delta.
                       let st2 = on_delta prompt_mode delta st1
                       in if opt_prop (Some chunk) ''done'' = Some (JBool True)
                          then Inr (st2\<lparr>isDone := True\<rparr>) else Inr st2))"

fun on_lines :: "bool \<Rightarrow> bool \<Rightarrow> string list \<Rightarrow> stream_state \<Rightarrow> js_error + stream_state" where
  "on_lines pm raw [] st = Inr st"
| "on_lines pm raw (l # ls) st =
     bindE (on_line pm raw l st) (\<lambda>st'. if isDone st' then Inr st' else on_lines pm raw ls st')"

fun read_loop :: "bool \<Rightarrow> bool \<Rightarrow> string list \<Rightarrow> stream_state \<Rightarrow> js_error + stream_state" where
  "read_loop pm raw [] st = Inr st"
| "read_loop pm raw (chunk # rest) st =
     (let lines = split_nl (buf st @ chunk)
      in bindE (on_lines pm raw (butlast lines) (st\<lparr>buf := last lines\<rparr>))
           (\<lambda>st'. if isDone st' then Inr st' else read_loop pm raw rest st'))"

definition finish_stream :: "bool \<Rightarrow> (nat \<Rightarrow> string) \<Rightarrow> stream_state \<Rightarrow> js_error + stream_part list" where
  "finish_stream prompt_mode uuid st =
     (if prompt_mode then
        bindE (parsePromptToolCall (fullText st))
          (\<lambda>parsedToolCall.
             case parsedToolCall of
               Tool calls \<Rightarrow>
                 Inr (parts st @ map (\<lambda>(i, n, a). ToolCall i n a) (tool_call_parts uuid calls)
                      @ [Finish ToolCalls])
             | Final t \<Rightarrow>
                 Inr (parts st @ [TextStart ''ollama-text'', TextDelta ''ollama-text'' t,
                                  TextEnd ''ollama-text'', Finish Stop]))
      else (case currentTextId st of
              Some i \<Rightarrow> Inr (parts st @ [TextEnd i, Finish Stop])
            | None \<Rightarrow> Inr (parts st @ [Finish Stop])))"

definition stream_init :: stream_state where
  "stream_init = \<lparr>parts = [StreamStart], buf = [], fullText = [], currentTextId = None,
                  finishReason = Unknown, isDone = False\<rparr>"

definition doStream :: "bool \<Rightarrow> bool \<Rightarrow> (nat \<Rightarrow> string) \<Rightarrow> http_response \<Rightarrow> call_error + stream_part list" where
  "doStream prompt_mode includeRawChunks uuid response =
     (if \<not> ok response then Inl (APICallError (status_code response) (status_code response \<ge> 500))
      else
        case body response of
          None \<Rightarrow> Inr (parts (enqueue (Finish ErrorReason) (stream_init\<lparr>finishReason := ErrorReason\<rparr>)))
        | Some chunks \<Rightarrow>
            thrown (bindE (read_loop prompt_mode includeRawChunks chunks stream_init)
                      (finish_stream prompt_mode uuid)))"

definition ex_uuid :: "nat \<Rightarrow> string" where
  "ex_uuid i = ''uuid-'' @ replicate (Suc i) (CHR ''x'')"

text \<open>The parts that are neither text nor tool calls nor start or finish.\<close>

definition quiet_part :: "stream_part \<Rightarrow> bool" where
  "quiet_part p = (case p of ErrorPart \<Rightarrow> True | Raw _ \<Rightarrow> True | _ \<Rightarrow> False)"

subsection \<open>Example texts and responses\<close>

definition two_objects :: string where
  \<open>two_objects = ''{"opencode":{"final":"a"}} {"opencode":{"final":"b"}}''\<close>

definition first_object :: string where
  \<open>first_object = ''{"opencode":{"final":"a"}}''\<close>

definition two_entries :: string where
  \<open>two_entries = ''{"tool_calls":[{"name":"t"},{"x":1}]}''\<close>

definition hover_text :: string where
  \<open>hover_text = ''{"opencode":{"tool_calls":[{"name":"ide.hover","arguments":{"uri":"a.ts","line":1,"character":0}}]}}''\<close>

definition hover_input :: string where
  \<open>hover_input = ''{"uri":"a.ts","line":1,"character":0}''\<close>

definition hover_line :: string where
  \<open>hover_line = ''{"message":{"content":'' @ quote hover_text @ ''},"done":true}''\<close>

definition hover_stream :: http_response where
  "hover_stream = \<lparr>ok = True, status_code = 200, body = Some [hover_line @ [CHR 0x0A]]\<rparr>"

definition hover_reply :: http_response where
  "hover_reply = \<lparr>ok = True, status_code = 200, body = Some [hover_line]\<rparr>"

definition no_body :: http_response where
  "no_body = \<lparr>ok = True, status_code = 204, body = None\<rparr>"

subsection \<open>Example registry\<close>

definition ex_model :: "string \<Rightarrow> model_status \<Rightarrow> string \<times> Model" where
  "ex_model n st = (n, \<lparr>model_id = Some n, providerID = ''anthropic'', api_id = None,
                         api_npm = ''@ai-sdk/anthropic'', model_status = st, variants = None\<rparr>)"

definition ex_providers :: "(string \<times> ProviderInfo) list" where
  "ex_providers =
     [(''anthropic'',
       \<lparr>provider_id = ''anthropic'', provider_name = ''Anthropic'', provider_source = SrcEnv,
        provider_env = [''ANTHROPIC_API_KEY''], provider_key = None,
        models = [ex_model ''claude-sonnet-4'' Active, ex_model ''claude-2'' Deprecated,
                  ex_model ''claude-next'' Alpha, ex_model ''claude-instant'' Active,
                  ex_model ''claude-haiku-4-5'' Beta]\<rparr>),
      (''legacy'',
       \<lparr>provider_id = ''legacy'', provider_name = ''Legacy'', provider_source = SrcConfig,
        provider_env = [], provider_key = None,
        models = [ex_model ''old-1'' Deprecated]\<rparr>)]"

definition ex_config :: Config where
  "ex_config =
     \<lparr>disabled_providers = None, enabled_providers = None,
      cfg_provider = [''anthropic'' \<mapsto> \<lparr>blacklist = Some [''claude-instant''], whitelist = None,
                                         cfg_variants = Map.empty\<rparr>]\<rparr>"



section \<open>Bedrock: theorems\<close>

text \<open>
  C5. A model ID that starts with \<open>global.\<close> or \<open>jp.\<close> is handed on unchanged, whatever
  the region; with region \<open>eu-central-1\<close> (configured, or as the default region) the
  model \<open>anthropic.claude-3-5-sonnet\<close> resolves to \<open>eu.anthropic.claude-3-5-sonnet\<close>; with
  region \<open>us-gov-west-1\<close> the same model gets no prefix.
\<close>

theorem bedrock_region_prefix:
  "bedrock_getModel r d (''global.'' @ rest) = ''global.'' @ rest
   \<and> bedrock_getModel r d (''jp.'' @ rest) = ''jp.'' @ rest
   \<and> bedrock_getModel (Some ''eu-central-1'') d ''anthropic.claude-3-5-sonnet''
       = ''eu.anthropic.claude-3-5-sonnet''
   \<and> bedrock_getModel None ''eu-central-1'' ''anthropic.claude-3-5-sonnet''
       = ''eu.anthropic.claude-3-5-sonnet''
   \<and> bedrock_getModel (Some ''us-gov-west-1'') d ''anthropic.claude-3-5-sonnet''
       = ''anthropic.claude-3-5-sonnet''
   \<and> bedrock_getModel None ''us-gov-west-1'' ''anthropic.claude-3-5-sonnet''
       = ''anthropic.claude-3-5-sonnet''"
proof -
  have pass: "bedrock_getModel r d (''global.'' @ rest) = ''global.'' @ rest"
    "bedrock_getModel r d (''jp.'' @ rest) = ''jp.'' @ rest"
    by (simp_all add: bedrock_getModel_def startsWith_def)
  have nogl: "\<not> startsWith ''anthropic.claude-3-5-sonnet'' ''global.''"
    "\<not> startsWith ''anthropic.claude-3-5-sonnet'' ''jp.''"
    by (simp_all add: startsWith_def)
  have cl: "str_includes ''anthropic.claude-3-5-sonnet'' ''claude''"
    by (simp add: str_includes_def sublist_Cons_right)
  have eu: "regionPrefix_of ''eu-central-1'' = ''eu''" "str_includes ''eu-central-1'' ''eu-central-1''"
    by (simp_all add: regionPrefix_of_def str_includes_def)
  have gov: "regionPrefix_of ''us-gov-west-1'' = ''us''" "startsWith ''us-gov-west-1'' ''us-gov''"
    by (simp_all add: regionPrefix_of_def startsWith_def)
  have e1: "bedrock_getModel (Some ''eu-central-1'') d ''anthropic.claude-3-5-sonnet''
       = ''eu.anthropic.claude-3-5-sonnet''"
    using nogl cl eu by (simp add: bedrock_getModel_def Let_def)
  have e2: "bedrock_getModel None ''eu-central-1'' ''anthropic.claude-3-5-sonnet''
       = ''eu.anthropic.claude-3-5-sonnet''"
    using nogl cl eu by (simp add: bedrock_getModel_def Let_def)
  have g1: "bedrock_getModel (Some ''us-gov-west-1'') d ''anthropic.claude-3-5-sonnet''
       = ''anthropic.claude-3-5-sonnet''"
    using nogl gov by (simp add: bedrock_getModel_def Let_def)
  have g2: "bedrock_getModel None ''us-gov-west-1'' ''anthropic.claude-3-5-sonnet''
       = ''anthropic.claude-3-5-sonnet''"
    using nogl gov by (simp add: bedrock_getModel_def Let_def)
  show ?thesis using pass e1 e2 g1 g2 by blast
qed

section \<open>PTY multiplexer: lemmas\<close>


lemma send_received: "send ws d sk = Some sk' \<Longrightarrow> received (sk' ws) = received (sk ws) @ [d]"
  by (auto simp: send_def split: option.splits nat.splits)



lemma send_None: "sendable (sk ws) = None \<Longrightarrow> \<exists>sk'. send ws d sk = Some sk'"
  by (auto simp: send_def)

lemma send_sendable_None: "send ws d sk = Some sk' \<Longrightarrow> sendable (sk k) = None \<Longrightarrow> sendable (sk' k) = None"
  by (auto simp: send_def split: option.splits nat.splits)

lemma send_length_mono: "send ws d sk = Some sk' \<Longrightarrow> length (received (sk k)) \<le> length (received (sk' k))"
  by (auto simp: send_def split: option.splits nat.splits)

lemma fan_out_mono:
  "fan_out d vs subs sk opn = (subs', sk', opn', threw) \<Longrightarrow>
     length (received (sk k)) \<le> length (received (sk' k))"
proof (induction vs arbitrary: subs sk opn)
  case Nil then show ?case by simp
next
  case (Cons w vs)
  show ?case
  proof (cases "readyState (sk w) \<noteq> 1")
    case True with Cons show ?thesis by simp
  next
    case False
    show ?thesis
    proof (cases "send w d sk")
      case None with False Cons.prems show ?thesis by simp
    next
      case (Some sk1)
      with False Cons.prems have "fan_out d vs subs sk1 True = (subs', sk', opn', threw)" by simp
      from Cons.IH[OF this] send_length_mono[OF Some, of k] show ?thesis by linarith
    qed
  qed
qed

lemma fan_out_not_open:
  "fan_out d vs subs sk opn = (subs', sk', opn', threw) \<Longrightarrow> \<not> opn' \<Longrightarrow> sk' = sk \<and> \<not> threw \<and> \<not> opn
     \<and> (\<forall>w\<in>set vs. readyState (sk w) \<noteq> 1)"
proof (induction vs arbitrary: subs sk opn)
  case Nil then show ?case by simp
next
  case (Cons w vs)
  show ?case
  proof (cases "readyState (sk w) \<noteq> 1")
    case True
    with Cons.prems have "fan_out d vs (set_delete w subs) sk opn = (subs', sk', opn', threw)" by simp
    from Cons.IH[OF this Cons.prems(2)] True show ?thesis by simp
  next
    case False
    show ?thesis
    proof (cases "send w d sk")
      case None with False Cons.prems show ?thesis by simp
    next
      case (Some sk1)
      with False Cons.prems have "fan_out d vs subs sk1 True = (subs', sk', opn', threw)" by simp
      from Cons.IH[OF this] Cons.prems(2) show ?thesis by simp
    qed
  qed
qed

lemma fan_out_open_sent:
  "fan_out d vs subs sk opn = (subs', sk', opn', threw) \<Longrightarrow> opn' \<Longrightarrow> \<not> opn \<Longrightarrow> \<not> threw \<Longrightarrow>
     \<exists>k. length (received (sk k)) < length (received (sk' k))"
proof (induction vs arbitrary: subs sk opn)
  case Nil then show ?case by simp
next
  case (Cons w vs)
  show ?case
  proof (cases "readyState (sk w) \<noteq> 1")
    case True with Cons show ?thesis by simp
  next
    case False
    show ?thesis
    proof (cases "send w d sk")
      case None with False Cons.prems show ?thesis by simp
    next
      case (Some sk1)
      with False Cons.prems have f: "fan_out d vs subs sk1 True = (subs', sk', opn', threw)" by simp
      from fan_out_mono[OF f, of w] send_received[OF Some] show ?thesis
        by (intro exI[of _ w]) simp
    qed
  qed
qed

lemma slice_last_le: "length (slice_last n s) \<le> n"
  by (simp add: slice_last_def)

lemma slice_last_id: "length s \<le> n \<Longrightarrow> slice_last n s = s"
  by (simp add: slice_last_def)

lemma inv_buf_heap_upd:
  "inv_buf st \<Longrightarrow> heap st' = (heap st)(r \<mapsto> s') \<Longrightarrow> length (buffer s') \<le> BUFFER_LIMIT \<Longrightarrow> inv_buf st'"
  by (simp add: inv_buf_def)

lemma inv_buf_heap_same: "inv_buf st \<Longrightarrow> heap st' = heap st \<Longrightarrow> inv_buf st'"
  by (simp add: inv_buf_def)

lemma inv_buf_init: "inv_buf (init_state sk)"
  by (simp add: inv_buf_def init_state_def)

lemma inv_buf_env: "inv_buf st \<Longrightarrow> inv_buf (env_sink ws rs sb st)"
  by (erule inv_buf_heap_same) (simp add: env_sink_def)

lemma inv_buf_create: "inv_buf st \<Longrightarrow> inv_buf (snd (create input env st))"
  by (simp add: inv_buf_def create_def Let_def publish_def)

lemma inv_buf_onData: "inv_buf st \<Longrightarrow> inv_buf (fst (onData r d st))"
proof -
  assume i: "inv_buf st"
  show ?thesis
  proof (cases "heap st r")
    case None then show ?thesis using i by (simp add: onData_def)
  next
    case (Some s)
    obtain subs sk opn threw where f: "fan_out d (subscribers s) (subscribers s) (sinks st) False = (subs, sk, opn, threw)"
      by (metis prod_cases4)
    from i Some have b: "length (buffer s) \<le> BUFFER_LIMIT" by (simp add: inv_buf_def)
    show ?thesis
      using i b
      by (auto simp: onData_def Some f Let_def slice_last_le intro!: inv_buf_heap_upd[OF i])
  qed
qed

lemma inv_buf_onExit: "inv_buf st \<Longrightarrow> inv_buf (onExit r c st)"
  by (auto simp: onExit_def inv_buf_def Let_def publish_def split: option.splits)

lemma inv_buf_update: "inv_buf st \<Longrightarrow> inv_buf (snd (update i u st))"
  by (auto simp: update_def inv_buf_def Let_def publish_def process_resize_def split: option.splits prod.splits)

lemma inv_buf_remove: "inv_buf st \<Longrightarrow> inv_buf (remove i st)"
  by (auto simp: remove_def inv_buf_def Let_def publish_def process_kill_def split: option.splits)

lemma inv_buf_resize: "inv_buf st \<Longrightarrow> inv_buf (resize i c r st)"
  by (auto simp: resize_def inv_buf_def process_resize_def split: option.splits)

lemma inv_buf_write: "inv_buf st \<Longrightarrow> inv_buf (pty_write i d st)"
  by (auto simp: pty_write_def inv_buf_def process_write_def split: option.splits)

lemma inv_buf_listen: "inv_buf st \<Longrightarrow> inv_buf (snd (listen i l st))"
  by (auto simp: listen_def inv_buf_def split: option.splits)

lemma inv_buf_unlisten: "inv_buf st \<Longrightarrow> inv_buf (unlisten r l st)"
  by (auto simp: unlisten_def inv_buf_def split: option.splits)

lemma inv_buf_onMessage: "inv_buf st \<Longrightarrow> inv_buf (onMessage r m st)"
  by (auto simp: onMessage_def inv_buf_def process_write_def split: option.splits)

lemma inv_buf_onClose: "inv_buf st \<Longrightarrow> inv_buf (onClose r ws st)"
  by (auto simp: onClose_def inv_buf_def split: option.splits)

lemma pin_cwd_buffer: "buffer (fst (pin_cwd dir s)) = buffer s"
  by (simp add: pin_cwd_def Let_def process_write_def)

lemma pin_cwd_subscribers: "subscribers (fst (pin_cwd dir s)) = subscribers s"
  by (simp add: pin_cwd_def Let_def process_write_def)

lemma inv_buf_connect: "inv_buf st \<Longrightarrow> inv_buf (snd (connect i ws dir st))"
proof -
  assume iv: "inv_buf st"
  show ?thesis
  proof (cases "Option.bind (sessions st i) (\<lambda>r. map_option (Pair r) (heap st r))")
    case None then show ?thesis using iv by (simp add: connect_def inv_buf_def)
  next
    case (Some a)
    obtain r s where a: "a = (r, s)" by (cases a)
    obtain s2 evs where p: "pin_cwd (map_option trim dir) (s\<lparr>subscribers := set_add ws (subscribers s)\<rparr>) = (s2, evs)"
      by (cases "pin_cwd (map_option trim dir) (s\<lparr>subscribers := set_add ws (subscribers s)\<rparr>)")
    from Some a have hs: "heap st r = Some s" by (auto simp: bind_eq_Some_conv)
    from pin_cwd_buffer[of "map_option trim dir" "s\<lparr>subscribers := set_add ws (subscribers s)\<rparr>"] p
    have b2: "buffer s2 = buffer s" by simp
    from iv hs have bl: "length (buffer s) \<le> BUFFER_LIMIT" by (simp add: inv_buf_def)
    obtain sk threw where fl: "flush ws (buffer s) 0 (sinks st) = (sk, threw)" by (cases "flush ws (buffer s) 0 (sinks st)")
    show ?thesis
      using bl b2 fl
      by (auto simp: connect_def Some a p Let_def split: bool.splits intro!: inv_buf_heap_upd[OF iv])
  qed
qed

lemma reachable_inv_buf: "reachable st \<Longrightarrow> inv_buf st"
  by (induction rule: reachable.induct)
     (simp_all add: inv_buf_init inv_buf_env inv_buf_create inv_buf_onData inv_buf_onExit inv_buf_update
        inv_buf_remove inv_buf_resize inv_buf_write inv_buf_listen inv_buf_unlisten inv_buf_connect
        inv_buf_onMessage inv_buf_onClose)

lemma fan_out_distinct:
  "fan_out d vs subs sk opn = (subs', sk', opn', threw) \<Longrightarrow> distinct subs \<Longrightarrow> distinct subs'"
proof (induction vs arbitrary: subs sk opn)
  case Nil then show ?case by simp
next
  case (Cons w vs)
  show ?case
  proof (cases "readyState (sk w) \<noteq> 1")
    case True
    with Cons.prems have "fan_out d vs (set_delete w subs) sk opn = (subs', sk', opn', threw)" by simp
    from Cons.IH[OF this] Cons.prems(2) show ?thesis by (simp add: set_delete_def distinct_removeAll)
  next
    case False
    show ?thesis
    proof (cases "send w d sk")
      case None with False Cons.prems show ?thesis by simp
    next
      case (Some sk1)
      with False Cons.prems have "fan_out d vs subs sk1 True = (subs', sk', opn', threw)" by simp
      from Cons.IH[OF this] Cons.prems(2) show ?thesis by simp
    qed
  qed
qed

lemma set_add_distinct: "distinct xs \<Longrightarrow> distinct (set_add x xs)"
  by (simp add: set_add_def)

lemma set_delete_distinct: "distinct xs \<Longrightarrow> distinct (set_delete x xs)"
  by (simp add: set_delete_def distinct_removeAll)

lemma inv_sub_init: "inv_sub (init_state sk)"
  by (simp add: inv_sub_def init_state_def)

lemma inv_sub_env: "inv_sub st \<Longrightarrow> inv_sub (env_sink ws rs sb st)"
  by (simp add: inv_sub_def env_sink_def)

lemma inv_sub_create: "inv_sub st \<Longrightarrow> inv_sub (snd (create input env st))"
  by (simp add: inv_sub_def create_def Let_def publish_def)

lemma inv_sub_onData: "inv_sub st \<Longrightarrow> inv_sub (fst (onData r d st))"
proof -
  assume i: "inv_sub st"
  show ?thesis
  proof (cases "heap st r")
    case None then show ?thesis using i by (simp add: onData_def)
  next
    case (Some s)
    obtain subs sk opn threw where f: "fan_out d (subscribers s) (subscribers s) (sinks st) False = (subs, sk, opn, threw)"
      by (metis prod_cases4)
    from i Some have b: "distinct (subscribers s)" by (simp add: inv_sub_def)
    from fan_out_distinct[OF f b] have "distinct subs" .
    then show ?thesis
      using i by (auto simp: onData_def Some f Let_def inv_sub_def)
  qed
qed

lemma inv_sub_onExit: "inv_sub st \<Longrightarrow> inv_sub (onExit r c st)"
  by (auto simp: onExit_def inv_sub_def Let_def publish_def split: option.splits)

lemma inv_sub_update: "inv_sub st \<Longrightarrow> inv_sub (snd (update i u st))"
  by (auto simp: update_def inv_sub_def Let_def publish_def process_resize_def split: option.splits prod.splits)

lemma inv_sub_remove: "inv_sub st \<Longrightarrow> inv_sub (remove i st)"
  by (auto simp: remove_def inv_sub_def Let_def publish_def process_kill_def split: option.splits)

lemma inv_sub_resize: "inv_sub st \<Longrightarrow> inv_sub (resize i c r st)"
  by (auto simp: resize_def inv_sub_def process_resize_def split: option.splits)

lemma inv_sub_write: "inv_sub st \<Longrightarrow> inv_sub (pty_write i d st)"
  by (auto simp: pty_write_def inv_sub_def process_write_def split: option.splits)

lemma inv_sub_listen: "inv_sub st \<Longrightarrow> inv_sub (snd (listen i l st))"
  by (auto simp: listen_def inv_sub_def split: option.splits)

lemma inv_sub_unlisten: "inv_sub st \<Longrightarrow> inv_sub (unlisten r l st)"
  by (auto simp: unlisten_def inv_sub_def split: option.splits)

lemma inv_sub_onMessage: "inv_sub st \<Longrightarrow> inv_sub (onMessage r m st)"
  by (auto simp: onMessage_def inv_sub_def process_write_def split: option.splits)

lemma inv_sub_onClose: "inv_sub st \<Longrightarrow> inv_sub (onClose r ws st)"
  by (auto simp: onClose_def inv_sub_def set_delete_distinct split: option.splits)

lemma inv_sub_connect: "inv_sub st \<Longrightarrow> inv_sub (snd (connect i ws dir st))"
proof -
  assume iv: "inv_sub st"
  show ?thesis
  proof (cases "Option.bind (sessions st i) (\<lambda>r. map_option (Pair r) (heap st r))")
    case None then show ?thesis using iv by (simp add: connect_def inv_sub_def)
  next
    case (Some a)
    obtain r s where a: "a = (r, s)" by (cases a)
    obtain s2 evs where p: "pin_cwd (map_option trim dir) (s\<lparr>subscribers := set_add ws (subscribers s)\<rparr>) = (s2, evs)"
      by (cases "pin_cwd (map_option trim dir) (s\<lparr>subscribers := set_add ws (subscribers s)\<rparr>)")
    from Some a have hs: "heap st r = Some s" by (auto simp: bind_eq_Some_conv)
    from pin_cwd_subscribers[of "map_option trim dir" "s\<lparr>subscribers := set_add ws (subscribers s)\<rparr>"] p
    have b2: "subscribers s2 = set_add ws (subscribers s)" by simp
    from iv hs have bl: "distinct (subscribers s)" by (simp add: inv_sub_def)
    obtain sk threw where fl: "flush ws (slice_last BUFFER_LIMIT (buffer s2)) 0 (sinks st) = (sk, threw)"
      by (cases "flush ws (slice_last BUFFER_LIMIT (buffer s2)) 0 (sinks st)")
    obtain sk0 threw0 where fl0: "flush ws (buffer s2) 0 (sinks st) = (sk0, threw0)"
      by (cases "flush ws (buffer s2) 0 (sinks st)")
    show ?thesis
      using bl b2 fl fl0 iv
      by (auto simp: connect_def Some a p Let_def inv_sub_def set_add_distinct set_delete_distinct split: bool.splits)
  qed
qed

lemma reachable_inv_sub: "reachable st \<Longrightarrow> inv_sub st"
  by (induction rule: reachable.induct)
     (simp_all add: inv_sub_init inv_sub_env inv_sub_create inv_sub_onData inv_sub_onExit inv_sub_update
        inv_sub_remove inv_sub_resize inv_sub_write inv_sub_listen inv_sub_unlisten inv_sub_connect
        inv_sub_onMessage inv_sub_onClose)

lemma pin_cwd_status: "status (info (fst (pin_cwd dir s))) = status (info s)"
  by (simp add: pin_cwd_def Let_def process_write_def)

lemma pin_cwd_pty_id: "pty_id (info (fst (pin_cwd dir s))) = pty_id (info s)"
  by (simp add: pin_cwd_def Let_def process_write_def)

lemma inv_table_init: "inv_table (init_state sk)"
  by (simp add: inv_table_def init_state_def)

lemma inv_table_env: "inv_table st \<Longrightarrow> inv_table (env_sink ws rs sb st)"
  by (simp add: inv_table_def env_sink_def)

lemma inv_table_create: "inv_table st \<Longrightarrow> inv_table (snd (create input env st))"
proof -
  assume iv: "inv_table st"
  let ?st' = "snd (create input env st)"
  obtain s' where h: "heap ?st' = (heap st)(nextRef st \<mapsto> s')" "status (info s') = Running"
      "pty_id (info s') = new_id env"
    and t: "sessions ?st' = (sessions st)(new_id env \<mapsto> nextRef st)"
    and n: "nextRef ?st' = Suc (nextRef st)"
    by (simp add: create_def Let_def publish_def)
  show ?thesis
    unfolding inv_table_def h t n
  proof (intro conjI allI impI)
    fix i r assume a: "((sessions st)(new_id env \<mapsto> nextRef st)) i = Some r"
    show "\<exists>s. ((heap st)(nextRef st \<mapsto> s')) r = Some s \<and> status (info s) = Running \<and> pty_id (info s) = i"
    proof (cases "i = new_id env")
      case True with a h show ?thesis by simp
    next
      case False
      with a have "sessions st i = Some r" by simp
      with iv obtain s where s: "heap st r = Some s" "status (info s) = Running" "pty_id (info s) = i"
        unfolding inv_table_def by blast
      with iv have "r \<noteq> nextRef st" unfolding inv_table_def by auto
      with s show ?thesis by simp
    qed
  next
    fix r assume "Suc (nextRef st) \<le> r"
    with iv show "((heap st)(nextRef st \<mapsto> s')) r = None" unfolding inv_table_def by auto
  qed
qed

text \<open>An update of the object r that keeps status and id, and leaves the table alone.\<close>

lemma inv_table_heap_upd:
  assumes "inv_table st" "heap st r = Some s"
    "status (info s') = status (info s)" "pty_id (info s') = pty_id (info s)"
    "heap st' = (heap st)(r \<mapsto> s')" "sessions st' = sessions st" "nextRef st' = nextRef st"
  shows "inv_table st'"
  unfolding inv_table_def
proof (intro conjI allI impI)
  fix i r' assume "sessions st' i = Some r'"
  with assms have "sessions st i = Some r'" by simp
  with assms(1) obtain s0 where s0: "heap st r' = Some s0" "status (info s0) = Running" "pty_id (info s0) = i"
    unfolding inv_table_def by blast
  show "\<exists>s. heap st' r' = Some s \<and> status (info s) = Running \<and> pty_id (info s) = i"
  proof (cases "r' = r")
    case True with s0 assms show ?thesis by simp
  next
    case False with s0 assms show ?thesis by simp
  qed
next
  fix r' assume "nextRef st' \<le> r'"
  with assms show "heap st' r' = None" unfolding inv_table_def by auto
qed

lemma inv_table_upd:
  "inv_table st \<Longrightarrow> heap st r = Some s \<Longrightarrow> status (info s') = status (info s) \<Longrightarrow>
   pty_id (info s') = pty_id (info s) \<Longrightarrow> inv_table (st\<lparr>heap := (heap st)(r \<mapsto> s')\<rparr>)"
  by (rule inv_table_heap_upd[where st = st and r = r and s = s and s' = s']) simp_all

lemma inv_table_same:
  "inv_table st \<Longrightarrow> heap st' = heap st \<Longrightarrow> sessions st' = sessions st \<Longrightarrow> nextRef st' = nextRef st
    \<Longrightarrow> inv_table st'"
  unfolding inv_table_def by simp

lemma inv_table_onData: "inv_table st \<Longrightarrow> inv_table (fst (onData r d st))"
proof -
  assume i: "inv_table st"
  show ?thesis
  proof (cases "heap st r")
    case None then show ?thesis using i by (simp add: onData_def)
  next
    case (Some s)
    obtain subs sk opn threw where f: "fan_out d (subscribers s) (subscribers s) (sinks st) False = (subs, sk, opn, threw)"
      by (metis prod_cases4)
    show ?thesis
      by (rule inv_table_heap_upd[OF i Some, where s' = "the (heap (fst (onData r d st)) r)"])
         (auto simp: onData_def Some f Let_def)
  qed
qed

lemma inv_table_onExit: "inv_table st \<Longrightarrow> inv_table (onExit r c st)"
proof -
  assume i: "inv_table st"
  show ?thesis
  proof (cases "heap st r")
    case None then show ?thesis using i by (simp add: onExit_def)
  next
    case (Some s)
    have h: "heap (onExit r c st) = (heap st)(r \<mapsto> s\<lparr>info := (info s)\<lparr>status := Exited\<rparr>\<rparr>)"
      and t: "sessions (onExit r c st) = (sessions st)(pty_id (info s) := None)"
      and n: "nextRef (onExit r c st) = nextRef st"
      by (simp_all add: onExit_def Some Let_def publish_def)
    show ?thesis
      unfolding inv_table_def h t n
    proof (intro conjI allI impI)
      fix i' r' assume a: "((sessions st)(pty_id (info s) := None)) i' = Some r'"
      then have ne: "i' \<noteq> pty_id (info s)" and s: "sessions st i' = Some r'" by (auto split: if_splits)
      from i s obtain s' where s': "heap st r' = Some s'" "status (info s') = Running" "pty_id (info s') = i'"
        unfolding inv_table_def by blast
      with ne Some have "r' \<noteq> r" by auto
      with s' show "\<exists>sa. ((heap st)(r \<mapsto> s\<lparr>info := (info s)\<lparr>status := Exited\<rparr>\<rparr>)) r' = Some sa \<and>
          status (info sa) = Running \<and> pty_id (info sa) = i'" by simp
    next
      fix r' assume "nextRef st \<le> r'"
      with i Some show "((heap st)(r \<mapsto> s\<lparr>info := (info s)\<lparr>status := Exited\<rparr>\<rparr>)) r' = None"
        unfolding inv_table_def by auto
    qed
  qed
qed

lemma inv_table_update: "inv_table st \<Longrightarrow> inv_table (snd (update i u st))"
proof -
  assume iv: "inv_table st"
  show ?thesis
  proof (cases "sessions st i")
    case None then show ?thesis using iv by (simp add: update_def)
  next
    case (Some r)
    show ?thesis
    proof (cases "heap st r")
      case None then show ?thesis using iv Some by (simp add: update_def)
    next
      case hs: (Some s)
      show ?thesis
        by (rule inv_table_heap_upd[OF iv hs, where s' = "the (heap (snd (update i u st)) r)"])
           (auto simp: update_def Some hs Let_def publish_def process_resize_def split: option.splits prod.splits)
    qed
  qed
qed

lemma inv_table_drop:
  assumes "inv_table st" "heap st r = Some s"
    "status (info s') = status (info s)" "pty_id (info s') = pty_id (info s)"
    "heap st' = (heap st)(r \<mapsto> s')" "sessions st' = (sessions st)(i := None)" "nextRef st' = nextRef st"
  shows "inv_table st'"
  unfolding inv_table_def
proof (intro conjI allI impI)
  fix j r' assume "sessions st' j = Some r'"
  with assms have "sessions st j = Some r'" by (simp split: if_splits)
  with assms(1) obtain s0 where s0: "heap st r' = Some s0" "status (info s0) = Running" "pty_id (info s0) = j"
    unfolding inv_table_def by blast
  show "\<exists>s. heap st' r' = Some s \<and> status (info s) = Running \<and> pty_id (info s) = j"
  proof (cases "r' = r")
    case True with s0 assms show ?thesis by simp
  next
    case False with s0 assms show ?thesis by simp
  qed
next
  fix r' assume "nextRef st' \<le> r'"
  with assms show "heap st' r' = None" unfolding inv_table_def by auto
qed

lemma inv_table_remove: "inv_table st \<Longrightarrow> inv_table (remove i st)"
proof -
  assume iv: "inv_table st"
  show ?thesis
  proof (cases "sessions st i")
    case None then show ?thesis using iv by (simp add: remove_def)
  next
    case (Some r)
    show ?thesis
    proof (cases "heap st r")
      case None then show ?thesis using iv Some by (simp add: remove_def)
    next
      case hs: (Some s)
      show ?thesis
        by (rule inv_table_drop[OF iv hs, where s' = "process_kill s" and i = i])
           (auto simp: remove_def Some hs publish_def process_kill_def)
    qed
  qed
qed

lemma inv_table_resize: "inv_table st \<Longrightarrow> inv_table (resize i c r st)"
  unfolding resize_def
  by (auto split: option.splits intro: inv_table_upd simp: process_resize_def)

lemma inv_table_write: "inv_table st \<Longrightarrow> inv_table (pty_write i d st)"
  unfolding pty_write_def
  by (auto split: option.splits intro: inv_table_upd simp: process_write_def)

lemma inv_table_listen: "inv_table st \<Longrightarrow> inv_table (snd (listen i l st))"
  unfolding listen_def
  by (auto split: option.splits intro: inv_table_upd)

lemma inv_table_unlisten: "inv_table st \<Longrightarrow> inv_table (unlisten r l st)"
  unfolding unlisten_def
  by (auto split: option.splits intro: inv_table_upd)

lemma inv_table_onMessage: "inv_table st \<Longrightarrow> inv_table (onMessage r m st)"
  unfolding onMessage_def
  by (auto split: option.splits intro: inv_table_upd simp: process_write_def)

lemma inv_table_onClose: "inv_table st \<Longrightarrow> inv_table (onClose r ws st)"
  unfolding onClose_def
  by (auto split: option.splits intro: inv_table_upd)

lemma inv_table_connect: "inv_table st \<Longrightarrow> inv_table (snd (connect i ws dir st))"
proof -
  assume iv: "inv_table st"
  show ?thesis
  proof (cases "Option.bind (sessions st i) (\<lambda>r. map_option (Pair r) (heap st r))")
    case None then show ?thesis using iv by (auto simp add: connect_def elim: inv_table_same)
  next
    case (Some a)
    obtain r s where a: "a = (r, s)" by (cases a)
    let ?s1 = "s\<lparr>subscribers := set_add ws (subscribers s)\<rparr>"
    obtain s2 evs where p: "pin_cwd (map_option trim dir) ?s1 = (s2, evs)"
      by (cases "pin_cwd (map_option trim dir) ?s1")
    from Some a have hs: "heap st r = Some s" by (auto simp: bind_eq_Some_conv)
    from pin_cwd_status[of "map_option trim dir" ?s1] pin_cwd_pty_id[of "map_option trim dir" ?s1] p
    have b2: "status (info s2) = status (info s)" "pty_id (info s2) = pty_id (info s)" by simp_all
    obtain sk threw where fl: "flush ws (slice_last BUFFER_LIMIT (buffer s2)) 0 (sinks st) = (sk, threw)"
      by (cases "flush ws (slice_last BUFFER_LIMIT (buffer s2)) 0 (sinks st)")
    obtain sk0 threw0 where fl0: "flush ws (buffer s2) 0 (sinks st) = (sk0, threw0)"
      by (cases "flush ws (buffer s2) 0 (sinks st)")
    show ?thesis
      by (rule inv_table_heap_upd[OF iv hs, where s' = "the (heap (snd (connect i ws dir st)) r)"])
         (auto simp: connect_def Some a p Let_def b2 fl fl0 split: bool.splits)
  qed
qed

lemma reachable_inv_table: "reachable st \<Longrightarrow> inv_table st"
  by (induction rule: reachable.induct)
     (simp_all add: inv_table_init inv_table_env inv_table_create inv_table_onData inv_table_onExit
        inv_table_update inv_table_remove inv_table_resize inv_table_write inv_table_listen
        inv_table_unlisten inv_table_connect inv_table_onMessage inv_table_onClose)



section \<open>PTY multiplexer: theorems\<close>

lemma onData_cases:
  assumes "heap st r = Some s"
    and "fan_out d (subscribers s) (subscribers s) (sinks st) False = (subs, sk, opn, thr)"
  shows "snd (onData r d st) = thr"
    and "sinks (fst (onData r d st)) = sk"
    and "heap (fst (onData r d st)) r =
           Some (s\<lparr>subscribers := subs,
                   buffer := (if thr \<or> opn then buffer s else slice_last BUFFER_LIMIT (buffer s @ d))\<rparr>)"
  using assms by (simp_all add: onData_def Let_def slice_last_id)

text \<open>
  C2. In every state the multiplexer can reach, the buffer of every session object holds at
  most \<open>BUFFER_LIMIT\<close> code units, and it still does after the next call of the output
  handler. A chunk that some sink received is not buffered, and neither is a chunk for which
  the handler found an open subscriber; when the handler completes and no sink received
  the chunk (or no subscriber was open), the buffer is the trailing \<open>BUFFER_LIMIT\<close> code
  units of the old buffer followed by the chunk.
\<close>

theorem buffer_bounded:
  assumes "reachable st" and "heap st r = Some s" and "onData r d st = (st', threw)"
  shows "length (buffer s) \<le> BUFFER_LIMIT
     \<and> (\<exists>s'. heap st' r = Some s' \<and> length (buffer s') \<le> BUFFER_LIMIT
          \<and> ((\<exists>k. received (sinks st' k) \<noteq> received (sinks st k)) \<longrightarrow> buffer s' = buffer s)
          \<and> ((\<exists>k\<in>set (subscribers s). readyState (sinks st k) = 1) \<longrightarrow> buffer s' = buffer s)
          \<and> (\<not> threw \<and> (\<forall>k. received (sinks st' k) = received (sinks st k))
                \<longrightarrow> buffer s' = slice_last BUFFER_LIMIT (buffer s @ d))
          \<and> ((\<forall>k\<in>set (subscribers s). readyState (sinks st k) \<noteq> 1)
                \<longrightarrow> \<not> threw \<and> buffer s' = slice_last BUFFER_LIMIT (buffer s @ d)))"
proof -
  from reachable_inv_buf[OF assms(1)] assms(2) have b: "length (buffer s) \<le> BUFFER_LIMIT"
    by (simp add: inv_buf_def)
  obtain subs sk opn thr where
    f: "fan_out d (subscribers s) (subscribers s) (sinks st) False = (subs, sk, opn, thr)"
    by (metis prod_cases4)
  let ?s' = "s\<lparr>subscribers := subs,
               buffer := (if thr \<or> opn then buffer s else slice_last BUFFER_LIMIT (buffer s @ d))\<rparr>"
  from onData_cases[OF assms(2) f] assms(3)
  have t: "threw = thr" and k: "sinks st' = sk" and h: "heap st' r = Some ?s'" by simp_all
  have l: "length (buffer ?s') \<le> BUFFER_LIMIT" using b by (simp add: slice_last_le)
  have c1: "(\<exists>k. received (sinks st' k) \<noteq> received (sinks st k)) \<longrightarrow> buffer ?s' = buffer s"
  proof
    assume "\<exists>k. received (sinks st' k) \<noteq> received (sinks st k)"
    then have "sk \<noteq> sinks st" using k by auto
    with fan_out_not_open[OF f] have opn by blast
    then show "buffer ?s' = buffer s" by simp
  qed
  have c2: "(\<exists>k\<in>set (subscribers s). readyState (sinks st k) = 1) \<longrightarrow> buffer ?s' = buffer s"
  proof
    assume "\<exists>k\<in>set (subscribers s). readyState (sinks st k) = 1"
    with fan_out_not_open[OF f] have opn by blast
    then show "buffer ?s' = buffer s" by simp
  qed
  have c3: "\<not> threw \<and> (\<forall>k. received (sinks st' k) = received (sinks st k))
      \<longrightarrow> buffer ?s' = slice_last BUFFER_LIMIT (buffer s @ d)"
  proof
    assume a: "\<not> threw \<and> (\<forall>k. received (sinks st' k) = received (sinks st k))"
    have "\<not> opn"
    proof
      assume opn
      with fan_out_open_sent[OF f] a t obtain k where
        "length (received (sinks st k)) < length (received (sk k))" by auto
      with a k show False by auto
    qed
    with a t show "buffer ?s' = slice_last BUFFER_LIMIT (buffer s @ d)" by simp
  qed
  have c4: "(\<forall>k\<in>set (subscribers s). readyState (sinks st k) \<noteq> 1)
      \<longrightarrow> \<not> threw \<and> buffer ?s' = slice_last BUFFER_LIMIT (buffer s @ d)"
  proof
    assume a: "\<forall>k\<in>set (subscribers s). readyState (sinks st k) \<noteq> 1"
    have "\<And>vs subs sk opn. \<forall>k\<in>set vs. readyState (sk k) \<noteq> 1 \<Longrightarrow>
        snd (snd (fan_out d vs subs sk opn)) = (opn, False)"
    proof -
      fix vs :: "nat list" and subs sk opn
      show "\<forall>k\<in>set vs. readyState (sk k) \<noteq> 1 \<Longrightarrow> snd (snd (fan_out d vs subs sk opn)) = (opn, False)"
        by (induction vs arbitrary: subs) simp_all
    qed
    from this[OF a, of "subscribers s" False] f have "\<not> opn" "\<not> thr" by simp_all
    with t show "\<not> threw \<and> buffer ?s' = slice_last BUFFER_LIMIT (buffer s @ d)" by simp
  qed
  from b h l c1 c2 c3 c4 show ?thesis by blast
qed

text \<open>
  C10. \<open>connect\<close> with an id that the session table does not have returns \<open>undefined\<close>
  and calls \<open>close\<close> on the sink; the table, every session object, the bus and every
  other sink are as before, and the sink was sent nothing.
\<close>

theorem connect_unknown_id:
  assumes "sessions st ident = None"
  shows "fst (connect ident ws dir st) = None
     \<and> snd (connect ident ws dir st) = st\<lparr>sinks := (sinks st)(ws := (sinks st ws)\<lparr>closeCalled := True\<rparr>)\<rparr>
     \<and> closeCalled (sinks (snd (connect ident ws dir st)) ws)
     \<and> sessions (snd (connect ident ws dir st)) = sessions st
     \<and> heap (snd (connect ident ws dir st)) = heap st
     \<and> bus (snd (connect ident ws dir st)) = bus st
     \<and> (\<forall>k. k \<noteq> ws \<longrightarrow> sinks (snd (connect ident ws dir st)) k = sinks st k)
     \<and> received (sinks (snd (connect ident ws dir st)) ws) = received (sinks st ws)"
  using assms by (simp add: connect_def close_def)

lemma st_created_fields:
  "sessions st_created ''pty_0001'' = Some 0"
  "map_option buffer (heap st_created 0) = Some []"
  "map_option subscribers (heap st_created 0) = Some []"
  "map_option listeners (heap st_created 0) = Some []"
  "map_option (status \<circ> info) (heap st_created 0) = Some Running"
  "map_option (pty_id \<circ> info) (heap st_created 0) = Some ''pty_0001''"
  "map_option (args \<circ> info) (heap st_created 0) = Some [''-l'']"
  "map_option (title \<circ> info) (heap st_created 0) = Some ''Terminal 0001''"
  by (simp_all add: st_created_def create_def init_state_def ex_input_def ex_env_def Let_def publish_def
      or_str_def truthy_str_def endsWith_def slice_last_def suffix_to_prefix)

lemma st_joined_fields:
  "sessions st_joined ''pty_0001'' = Some 0"
  "map_option subscribers (heap st_joined 0) = Some [7]"
  "map_option listeners (heap st_joined 0) = Some [3]"
  "map_option (status \<circ> info) (heap st_joined 0) = Some Running"
  by (simp_all add: st_joined_def st_created_def create_def init_state_def ex_input_def ex_env_def Let_def publish_def
      or_str_def truthy_str_def endsWith_def slice_last_def suffix_to_prefix
      connect_def listen_def pin_cwd_def set_add_def)

theorem exited_session_counterexample:
  "reachable (onExit 0 0 st_joined)
   \<and> map_option (status \<circ> info) (heap (onExit 0 0 st_joined) 0) = Some Exited
   \<and> map_option subscribers (heap (onExit 0 0 st_joined) 0) = Some [7]
   \<and> map_option listeners (heap (onExit 0 0 st_joined) 0) = Some [3]"
proof -
  have "reachable st_joined"
    unfolding st_joined_def st_created_def
    by (intro r_listen r_connect r_create r_init)
  then have "reachable (onExit 0 0 st_joined)" by (rule r_onExit)
  moreover obtain s where s: "heap st_joined 0 = Some s" using st_joined_fields(2) by (cases "heap st_joined 0") auto
  ultimately show ?thesis using st_joined_fields
    by (simp add: onExit_def Let_def publish_def)
qed







lemmas pty_eval = create_def init_state_def ex_input_def ex_env_def Let_def publish_def
      or_str_def truthy_str_def endsWith_def slice_last_def suffix_to_prefix sk0_def
      connect_def listen_def pin_cwd_def set_add_def set_delete_def onData_def call_listeners_def
      BUFFER_LIMIT_def BUFFER_CHUNK_def flush.simps send_def slice_def close_def

lemma st_abc_fields:
  "sessions st_abc ''pty_0001'' = Some 0"
  "map_option buffer (heap st_abc 0) = Some ''ABC''"
  "map_option subscribers (heap st_abc 0) = Some []"
  "snd (onData 0 ''ABC'' st_created) = False"
  "sinks st_abc = sk0"
  by (simp_all add: st_abc_def st_created_def pty_eval)



theorem buffer_bounded_witness:
  "reachable st_created
   \<and> map_option buffer (heap st_created 0) = Some []
   \<and> map_option buffer (heap st_abc 0) = Some ''ABC''
   \<and> length ''ABC'' \<le> BUFFER_LIMIT"
proof -
  have r: "reachable st_created" unfolding st_created_def by (intro r_create r_init)
  obtain s where s: "heap st_created 0 = Some s" "buffer s = []" "subscribers s = []"
    using st_created_fields(2,3) by (cases "heap st_created 0") auto
  have o: "onData 0 ''ABC'' st_created = (st_abc, False)"
    using st_abc_fields(4) by (simp add: st_abc_def prod_eq_iff)
  from buffer_bounded[OF r s(1) o] obtain s' where
    "heap st_abc 0 = Some s'" "length (buffer s') \<le> BUFFER_LIMIT" by blast
  with st_abc_fields(2) have "length ''ABC'' \<le> BUFFER_LIMIT" by auto
  with r st_created_fields(2) st_abc_fields(2) show ?thesis by simp
qed

theorem connect_unknown_id_witness:
  "sessions st_created ''pty_9999'' = None
   \<and> fst (connect ''pty_9999'' 7 None st_created) = None
   \<and> closeCalled (sinks (snd (connect ''pty_9999'' 7 None st_created)) 7)
   \<and> heap (snd (connect ''pty_9999'' 7 None st_created)) = heap st_created"
proof -
  have n: "sessions st_created ''pty_9999'' = None"
    by (simp add: st_created_def pty_eval)
  from connect_unknown_id[OF n, of 7 None] n show ?thesis by simp
qed

text \<open>
  C8, as amended. The exit handler marks the session object exited and changes nothing else
  of it (its subscribers and listeners stay as they are), publishes the exited event with
  the exit code, and deletes the session's id from the table. So a session that the
  table has is running, in every reachable state.
\<close>

theorem exit_marks_and_removes:
  assumes "reachable st" and "heap st r = Some s"
  shows "heap (onExit r c st) r = Some (s\<lparr>info := (info s)\<lparr>status := Exited\<rparr>\<rparr>)
     \<and> bus (onExit r c st) = bus st @ [ExitedEv (pty_id (info s)) c]
     \<and> sessions (onExit r c st) (pty_id (info s)) = None
     \<and> (\<forall>i. i \<noteq> pty_id (info s) \<longrightarrow> sessions (onExit r c st) i = sessions st i)
     \<and> (\<forall>i r' s'. sessions (onExit r c st) i = Some r' \<longrightarrow> heap (onExit r c st) r' = Some s'
           \<longrightarrow> status (info s') = Running)
     \<and> (\<forall>i r' s'. sessions st i = Some r' \<longrightarrow> heap st r' = Some s' \<longrightarrow> status (info s') = Running)"
proof -
  have e: "heap (onExit r c st) r = Some (s\<lparr>info := (info s)\<lparr>status := Exited\<rparr>\<rparr>)"
    "bus (onExit r c st) = bus st @ [ExitedEv (pty_id (info s)) c]"
    "sessions (onExit r c st) (pty_id (info s)) = None"
    "\<forall>i. i \<noteq> pty_id (info s) \<longrightarrow> sessions (onExit r c st) i = sessions st i"
    using assms(2) by (simp_all add: onExit_def Let_def publish_def)
  have t: "\<And>st. reachable st \<Longrightarrow>
      \<forall>i r' s'. sessions st i = Some r' \<longrightarrow> heap st r' = Some s' \<longrightarrow> status (info s') = Running"
  proof (intro allI impI)
    fix st i r' s'
    assume "reachable st" "sessions st i = Some r'" "heap st r' = Some s'"
    with reachable_inv_table[of st] show "status (info s') = Running"
      unfolding inv_table_def by fastforce
  qed
  from t[OF assms(1)] t[OF r_onExit[OF assms(1), of r c]] e show ?thesis by blast
qed

theorem exit_marks_and_removes_witness:
  "reachable st_joined
   \<and> map_option (status \<circ> info) (heap st_joined 0) = Some Running
   \<and> map_option (status \<circ> info) (heap (onExit 0 0 st_joined) 0) = Some Exited
   \<and> sessions (onExit 0 0 st_joined) ''pty_0001'' = None
   \<and> bus (onExit 0 0 st_joined) = bus st_joined @ [ExitedEv ''pty_0001'' 0]"
proof -
  have r: "reachable st_joined"
    unfolding st_joined_def st_created_def by (intro r_listen r_connect r_create r_init)
  obtain s where s: "heap st_joined 0 = Some s" "pty_id (info s) = ''pty_0001''"
    by (cases "heap st_joined 0") (simp_all add: st_joined_def st_created_def pty_eval)
  from exit_marks_and_removes[OF r s(1), of 0] s st_joined_fields r show ?thesis by simp
qed

section \<open>Registry and prompt mode: theorems\<close>

lemma filter_models_keys:
  "(modelID, m) \<in> set (filter_models ex pID cp ms) \<Longrightarrow>
     \<exists>m0. (modelID, m0) \<in> set ms \<and> \<not> model_deleted ex pID cp modelID m0 \<and> m = model_updated cp modelID m0"
  by (auto simp: filter_models_def)

lemma model_updated_status: "model_status (model_updated cp modelID m) = model_status m"
  by (simp add: model_updated_def Let_def split: option.splits)

lemma copilot_status:
  "(modelID, m) \<in> set (mapValues (\<lambda>model. model\<lparr>api_npm := n\<rparr>) ms) \<Longrightarrow>
     \<exists>m0. (modelID, m0) \<in> set ms \<and> model_status m = model_status m0"
  by (auto simp: mapValues_def)

lemma filter_provider_Some:
  assumes "filter_provider ex config pID p0 = Some p"
  shows "models p \<noteq> []"
    and "(modelID, m) \<in> set (models p) \<Longrightarrow>
       \<exists>m0. (modelID, m0) \<in> set (models p0) \<and> model_status m = model_status m0
           \<and> \<not> model_deleted ex pID (cfg_provider config pID) modelID m"
proof -
  let ?ms0 = "(if pID = ''github-copilot'' \<or> pID = ''github-copilot-enterprise''
                   then mapValues (\<lambda>model. model\<lparr>api_npm := ''@ai-sdk/github-copilot''\<rparr>) (models p0)
                   else models p0)"
  from assms have a: "isProviderAllowed config pID"
    and ms: "models p = filter_models ex pID (cfg_provider config pID) ?ms0" and ne: "models p \<noteq> []"
    by (auto simp: filter_provider_def Let_def split: if_splits)
  show "models p \<noteq> []" by (rule ne)
  assume "(modelID, m) \<in> set (models p)"
  with ms filter_models_keys[of modelID m ex pID "cfg_provider config pID" ?ms0] obtain m1 where
    m1: "(modelID, m1) \<in> set ?ms0" "\<not> model_deleted ex pID (cfg_provider config pID) modelID m1"
        "m = model_updated (cfg_provider config pID) modelID m1" by auto
  from m1(1) obtain m0 where m0: "(modelID, m0) \<in> set (models p0)" "model_status m1 = model_status m0"
    using copilot_status[of modelID m1 "''@ai-sdk/github-copilot''" "models p0"] by (auto split: if_splits)
  have "model_status m = model_status m1" by (simp add: m1(3) model_updated_status)
  with m1(2) m0 show "\<exists>m0. (modelID, m0) \<in> set (models p0) \<and> model_status m = model_status m0
           \<and> \<not> model_deleted ex pID (cfg_provider config pID) modelID m"
    by (auto simp: model_deleted_def)
qed

text \<open>
  C6. A provider that the filter pass leaves in the registry has at least one model, and
  each of its models is not deprecated, is alpha only when the experimental flag is set, is
  not on the provider's configured blacklist, and is on its whitelist when the configuration
  has one; it is a model the provider had before the pass, with the same status.
\<close>

theorem filter_pass_prunes:
  assumes "(pID, p) \<in> set (filter_pass experimental config provs)"
  shows "models p \<noteq> []
     \<and> (\<forall>(modelID, m) \<in> set (models p).
           model_status m \<noteq> Deprecated
         \<and> (model_status m = Alpha \<longrightarrow> experimental)
         \<and> (\<forall>cp bl. cfg_provider config pID = Some cp \<longrightarrow> blacklist cp = Some bl \<longrightarrow> modelID \<notin> set bl)
         \<and> (\<forall>cp wl. cfg_provider config pID = Some cp \<longrightarrow> whitelist cp = Some wl \<longrightarrow> modelID \<in> set wl)
         \<and> (\<exists>p0 m0. (pID, p0) \<in> set provs \<and> (modelID, m0) \<in> set (models p0)
               \<and> model_status m0 = model_status m))"
proof -
  from assms obtain p0 where p0: "(pID, p0) \<in> set provs"
    and f: "filter_provider experimental config pID p0 = Some p"
    by (auto simp: filter_pass_def map_filter_def)
  note fp = filter_provider_Some[OF f]
  have "\<forall>(modelID, m) \<in> set (models p).
           model_status m \<noteq> Deprecated
         \<and> (model_status m = Alpha \<longrightarrow> experimental)
         \<and> (\<forall>cp bl. cfg_provider config pID = Some cp \<longrightarrow> blacklist cp = Some bl \<longrightarrow> modelID \<notin> set bl)
         \<and> (\<forall>cp wl. cfg_provider config pID = Some cp \<longrightarrow> whitelist cp = Some wl \<longrightarrow> modelID \<in> set wl)
         \<and> (\<exists>p0 m0. (pID, p0) \<in> set provs \<and> (modelID, m0) \<in> set (models p0)
               \<and> model_status m0 = model_status m)"
  proof (clarify)
    fix modelID m assume mm: "(modelID, m) \<in> set (models p)"
    from fp(2)[OF mm] obtain m0 where m0: "(modelID, m0) \<in> set (models p0)" "model_status m = model_status m0"
      and nd: "\<not> model_deleted experimental pID (cfg_provider config pID) modelID m" by blast
    from nd have 1: "model_status m \<noteq> Deprecated" and 2: "model_status m = Alpha \<longrightarrow> experimental"
      by (auto simp: model_deleted_def)
    from nd have 3: "\<forall>cp bl. cfg_provider config pID = Some cp \<longrightarrow> blacklist cp = Some bl \<longrightarrow> modelID \<notin> set bl"
      by (auto simp: model_deleted_def)
    from nd have 4: "\<forall>cp wl. cfg_provider config pID = Some cp \<longrightarrow> whitelist cp = Some wl \<longrightarrow> modelID \<in> set wl"
      by (auto simp: model_deleted_def)
    from p0 m0 have 5: "\<exists>p0 m0. (pID, p0) \<in> set provs \<and> (modelID, m0) \<in> set (models p0)
               \<and> model_status m0 = model_status m" by auto
    from 1 2 3 4 5 show "model_status m \<noteq> Deprecated
         \<and> (model_status m = Alpha \<longrightarrow> experimental)
         \<and> (\<forall>cp bl. cfg_provider config pID = Some cp \<longrightarrow> blacklist cp = Some bl \<longrightarrow> modelID \<notin> set bl)
         \<and> (\<forall>cp wl. cfg_provider config pID = Some cp \<longrightarrow> whitelist cp = Some wl \<longrightarrow> modelID \<in> set wl)
         \<and> (\<exists>p0 m0. (pID, p0) \<in> set provs \<and> (modelID, m0) \<in> set (models p0)
               \<and> model_status m0 = model_status m)" by blast
  qed
  with fp(1) show ?thesis by blast
qed





lemma dot_not_nullish: "\<not> nullish v \<Longrightarrow> dot v k = Inr (opt_prop v k)"
  by (cases v) (auto simp: dot_def opt_prop_def nullish_def split: json.splits)

lemma opt_prop_not_nullish: "opt_prop v k \<noteq> None \<Longrightarrow> \<not> nullish v"
  by (auto simp: opt_prop_def nullish_def split: option.splits json.splits)

lemma is_string_not_None: "is_string v \<Longrightarrow> v \<noteq> None"
  by (auto simp: is_string_def split: option.splits json.splits)

lemma is_string_None: "\<not> is_string None"
  by (simp add: is_string_def)

lemma is_string_dot: "is_string (opt_prop v k) \<Longrightarrow> dot v k = Inr (opt_prop v k)"
  by (rule dot_not_nullish, rule opt_prop_not_nullish, rule is_string_not_None)

lemma string_prop_eq: "string_prop v k = Inr (if is_string (opt_prop v k) then opt_prop v k else None)"
  by (simp add: string_prop_def is_string_dot)

lemma call_of_named: "call_of c = Inr (named c)"
proof -
  show ?thesis
    by (simp add: call_of_def named_def bindE_def is_string_dot Let_def)
qed

lemma mapE_pure: "(\<And>x. f x = Inr (g x)) \<Longrightarrow> mapE f xs = Inr (map g xs)"
  by (induction xs) (simp_all add: bindE_def)

lemma calls_of_eq:
  "calls_of tc = Inr (case tc of Some (JArray cs) \<Rightarrow> List.map_filter named cs | _ \<Rightarrow> [])"
proof -
  have m: "mapE call_of cs = Inr (map named cs)" for cs
    by (rule mapE_pure) (rule call_of_named)
  have f: "List.map_filter id (map named cs) = List.map_filter named cs" for cs
    by (simp add: map_filter_def filter_map comp_def)
  show ?thesis
    by (auto simp: calls_of_def m f bindE_def split: option.splits json.splits)
qed

lemma finalText_of_eq:
  "finalText_of root =
     Inr (if is_string (opt_prop root ''final'') then opt_prop root ''final''
          else if is_string (opt_prop root ''content'') then opt_prop root ''content''
          else if is_string (opt_prop root ''text'') then opt_prop root ''text''
          else None)"
proof -
  have n: "is_string v \<Longrightarrow> \<not> nullish v" for v
    by (auto simp: is_string_def nullish_def split: option.splits json.splits)
  show ?thesis
    by (simp add: finalText_of_def coalesceE_def string_prop_eq bindE_def n)
       (simp add: nullish_def)
qed

lemma parsePromptToolCall_eq:
  "parsePromptToolCall text =
     Inr (let root = root_of text;
              calls = (case toolCalls_of root of Some (JArray cs) \<Rightarrow> List.map_filter named cs | _ \<Rightarrow> [])
          in if calls \<noteq> [] then Tool calls
             else if is_string (opt_prop root ''final'') then Final (str_of (opt_prop root ''final''))
             else if is_string (opt_prop root ''content'') then Final (str_of (opt_prop root ''content''))
             else if is_string (opt_prop root ''text'') then Final (str_of (opt_prop root ''text''))
             else Final text)"
  by (simp add: parsePromptToolCall_def calls_of_eq finalText_of_eq bindE_def Let_def is_string_def)

lemma root_of_None: "extractJson text = None \<Longrightarrow> root_of text = None"
  by (simp add: root_of_def coalesce_def opt_prop_def nullish_def)

text \<open>
  C9. \<open>parsePromptToolCall\<close> throws for no text: it returns tool calls (at least one) or a
  final text. When \<open>extractJson\<close> finds no JSON object, and when what it finds has none of
  \<open>tool_calls\<close>, \<open>toolCalls\<close>, \<open>toolcalls\<close>, \<open>final\<close>, \<open>content\<close>, \<open>text\<close>, the final text
  is the text that was given, unchanged.
\<close>

theorem parsePromptToolCall_total:
  "((\<exists>calls. parsePromptToolCall text = Inr (Tool calls) \<and> calls \<noteq> [])
      \<or> (\<exists>t. parsePromptToolCall text = Inr (Final t)))
   \<and> (extractJson text = None \<longrightarrow> parsePromptToolCall text = Inr (Final text))
   \<and> (nullish (toolCalls_of (root_of text)) \<and> opt_prop (root_of text) ''final'' = None
        \<and> opt_prop (root_of text) ''content'' = None \<and> opt_prop (root_of text) ''text'' = None
        \<longrightarrow> parsePromptToolCall text = Inr (Final text))"
proof -
  have 1: "(\<exists>calls. parsePromptToolCall text = Inr (Tool calls) \<and> calls \<noteq> [])
      \<or> (\<exists>t. parsePromptToolCall text = Inr (Final t))"
    unfolding parsePromptToolCall_eq by (simp add: Let_def)
  have 2: "extractJson text = None \<longrightarrow> parsePromptToolCall text = Inr (Final text)"
    unfolding parsePromptToolCall_eq
    by (auto simp: Let_def root_of_None toolCalls_of_def coalesce_def opt_prop_def nullish_def is_string_def)
  have 3: "nullish (toolCalls_of (root_of text)) \<and> opt_prop (root_of text) ''final'' = None
        \<and> opt_prop (root_of text) ''content'' = None \<and> opt_prop (root_of text) ''text'' = None
        \<longrightarrow> parsePromptToolCall text = Inr (Final text)"
    unfolding parsePromptToolCall_eq
    by (auto simp: Let_def nullish_def is_string_def)
  from 1 2 3 show ?thesis by blast
qed

lemma takeWhile_first:
  assumes "c \<in> set t"
  shows "\<exists>zs. t = takeWhile (\<lambda>x. x \<noteq> c) t @ c # zs"
proof -
  let ?P = "\<lambda>x. x \<noteq> c"
  from assms have ne: "dropWhile ?P t \<noteq> []" by (auto simp: dropWhile_eq_Nil_conv)
  then obtain y zs where d: "dropWhile ?P t = y # zs" by (cases "dropWhile ?P t") auto
  from hd_dropWhile[OF ne] d have "y = c" by simp
  with d takeWhile_dropWhile_id[of ?P t] show ?thesis by metis
qed

lemma takeWhile_last:
  assumes "c \<in> set t"
  shows "\<exists>ys. t = ys @ c # rev (takeWhile (\<lambda>x. x \<noteq> c) (rev t))"
proof -
  from assms have "c \<in> set (rev t)" by simp
  from takeWhile_first[OF this] obtain zs where "rev t = takeWhile (\<lambda>x. x \<noteq> c) (rev t) @ c # zs" by blast
  then have "rev (rev t) = rev (takeWhile (\<lambda>x. x \<noteq> c) (rev t) @ c # zs)" by simp
  then have "t = rev zs @ c # rev (takeWhile (\<lambda>x. x \<noteq> c) (rev t))" by simp
  then show ?thesis by blast
qed

lemma json_slice_shape:
  assumes "json_slice text = Some s"
  shows "\<exists>pre mid post. trim text = pre @ s @ post \<and> s = CHR ''{'' # mid @ [CHR ''}'']
            \<and> CHR ''{'' \<notin> set pre \<and> CHR ''}'' \<notin> set post"
proof -
  define t where "t = trim text"
  define A where "A = takeWhile (\<lambda>x. x \<noteq> CHR ''{'') t"
  define B where "B = rev (takeWhile (\<lambda>x. x \<noteq> CHR ''}'') (rev t))"
  from assms have o: "CHR ''{'' \<in> set t" and c: "CHR ''}'' \<in> set t"
    by (auto simp: json_slice_def Let_def indexOf_def lastIndexOf_def t_def split: if_splits)
  from assms o c have lt: "length A < length t - 1 - length B"
    and s: "s = slice t (length A) (length t - 1 - length B + 1)"
    by (auto simp: json_slice_def Let_def indexOf_def lastIndexOf_def t_def A_def B_def split: if_splits)
  from takeWhile_first[OF o] obtain Z where Z: "t = A @ CHR ''{'' # Z" unfolding A_def by blast
  from takeWhile_last[OF c] obtain Y where Y: "t = Y @ CHR ''}'' # B" unfolding B_def by blast
  from arg_cong[OF Y, of length] have lY: "length t - 1 - length B = length Y" by simp
  with lt have l: "length A < length Y" by simp
  have "Y = take (length Y) t" by (subst Y) simp
  also have "\<dots> = take (length Y) (A @ CHR ''{'' # Z)" using Z by simp
  also have "\<dots> = A @ take (length Y - length A) (CHR ''{'' # Z)" using l by simp
  also have "\<dots> = A @ CHR ''{'' # take (length Y - length A - 1) Z"
    using l by (cases "length Y - length A") simp_all
  finally obtain M where M: "Y = A @ CHR ''{'' # M" by blast
  have t: "t = A @ (CHR ''{'' # M @ [CHR ''}'']) @ B" by (subst Y, subst M) simp
  have "s = take (length Y + 1 - length A) (drop (length A) t)"
    using s lY by (simp add: slice_def)
  also have "drop (length A) t = (CHR ''{'' # M @ [CHR ''}'']) @ B"
    by (subst t) simp
  also have "length Y + 1 - length A = length (CHR ''{'' # M @ [CHR ''}''])"
    by (subst M) simp
  finally have se: "s = CHR ''{'' # M @ [CHR ''}'']" by simp
  have a: "CHR ''{'' \<notin> set A" unfolding A_def by (auto dest: set_takeWhileD)
  have b: "CHR ''}'' \<notin> set B" unfolding B_def by (auto dest: set_takeWhileD)
  from t se a b show ?thesis unfolding t_def by blast
qed

lemma message_content_eq:
  "message_content p =
     Inr (if truthy_opt (opt_prop p ''message'') \<and> is_string (opt_prop (opt_prop p ''message'') ''content'')
          then opt_prop (opt_prop p ''message'') ''content'' else None)"
proof (cases "truthy_opt (opt_prop p ''message'')")
  case False
  then show ?thesis by (simp add: message_content_def)
next
  case True
  then have n: "opt_prop p ''message'' \<noteq> None" and m: "\<not> nullish (opt_prop p ''message'')"
    by (auto simp: truthy_opt_def nullish_def split: option.splits)
  have 1: "dot p ''message'' = Inr (opt_prop p ''message'')"
    by (rule dot_not_nullish, rule opt_prop_not_nullish, rule n)
  have 2: "dot (opt_prop p ''message'') ''content'' = Inr (opt_prop (opt_prop p ''message'') ''content'')"
    by (rule dot_not_nullish, rule m)
  show ?thesis using True by (simp add: message_content_def bindE_def 1 2)
qed

lemma is_string_not_nullish: "is_string v \<Longrightarrow> \<not> nullish v"
  by (auto simp: is_string_def nullish_def split: option.splits json.splits)

lemma response_text_total: "\<exists>t. response_text p = Inr t"
  by (simp add: response_text_def message_content_eq coalesceE_def bindE_def is_string_dot)

lemma chunk_delta_total: "\<exists>d. chunk_delta c = Inr d"
  by (simp add: chunk_delta_def message_content_eq coalesceE_def bindE_def is_string_dot)

text \<open>
  C3, as amended. The substring parsed is the one from the first \<open>{\<close> to the last \<open>}\<close>
  of the trimmed text. When the root of the parsed object (its \<open>opencode\<close> member, or
  itself) has an array under \<open>tool_calls\<close>, \<open>toolCalls\<close> or \<open>toolcalls\<close> with at least one
  named entry, the result is one call per named entry, in order, and \<open>doGenerate\<close> gives
  one tool-call part per call, the \<open>i\<close>-th with the \<open>i\<close>-th generated UUID and the
  serialized arguments, with finish reason \<open>tool-calls\<close>; otherwise the result is one text
  part, of the first string among \<open>final\<close>, \<open>content\<close>, \<open>text\<close>, or of the whole text.
\<close>

theorem prompt_mode_generate:
  "(\<forall>s. json_slice text = Some s \<longrightarrow>
       (\<exists>pre mid post. trim text = pre @ s @ post \<and> s = CHR ''{'' # mid @ [CHR ''}'']
            \<and> CHR ''{'' \<notin> set pre \<and> CHR ''}'' \<notin> set post))
   \<and> extractJson text = Option.bind (json_slice text) JSON_parse
   \<and> parsePromptToolCall text =
       Inr (let root = root_of text;
                calls = (case toolCalls_of root of Some (JArray cs) \<Rightarrow> List.map_filter named cs | _ \<Rightarrow> [])
            in if calls \<noteq> [] then Tool calls
               else if is_string (opt_prop root ''final'') then Final (str_of (opt_prop root ''final''))
               else if is_string (opt_prop root ''content'') then Final (str_of (opt_prop root ''content''))
               else if is_string (opt_prop root ''text'') then Final (str_of (opt_prop root ''text''))
               else Final text)
   \<and> (ok response \<longrightarrow>
        (\<exists>rt. response_text (JSON_parse (concat (case body response of Some cs \<Rightarrow> cs | None \<Rightarrow> []))) = Inr rt
           \<and> (\<forall>calls. parsePromptToolCall rt = Inr (Tool calls) \<longrightarrow>
                 doGenerate True uuid response =
                   Inr (map (\<lambda>(i, c). ToolCallPart (uuid i) (fst c) (JSON_stringify (snd c))) (enumerate 0 calls),
                        ToolCalls))
           \<and> (\<forall>t. parsePromptToolCall rt = Inr (Final t) \<longrightarrow>
                 doGenerate True uuid response = Inr ([TextPart t], Stop))))"
proof -
  have 1: "\<forall>s. json_slice text = Some s \<longrightarrow>
       (\<exists>pre mid post. trim text = pre @ s @ post \<and> s = CHR ''{'' # mid @ [CHR ''}'']
            \<and> CHR ''{'' \<notin> set pre \<and> CHR ''}'' \<notin> set post)"
    using json_slice_shape by blast
  have 2: "extractJson text = Option.bind (json_slice text) JSON_parse"
    by (simp add: extractJson_def)
  have 4: "ok response \<longrightarrow>
        (\<exists>rt. response_text (JSON_parse (concat (case body response of Some cs \<Rightarrow> cs | None \<Rightarrow> []))) = Inr rt
           \<and> (\<forall>calls. parsePromptToolCall rt = Inr (Tool calls) \<longrightarrow>
                 doGenerate True uuid response =
                   Inr (map (\<lambda>(i, c). ToolCallPart (uuid i) (fst c) (JSON_stringify (snd c))) (enumerate 0 calls),
                        ToolCalls))
           \<and> (\<forall>t. parsePromptToolCall rt = Inr (Final t) \<longrightarrow>
                 doGenerate True uuid response = Inr ([TextPart t], Stop)))"
  proof
    assume k: "ok response"
    let ?p = "JSON_parse (concat (case body response of Some cs \<Rightarrow> cs | None \<Rightarrow> []))"
    from response_text_total[of ?p] obtain rt where rt: "response_text ?p = Inr rt" by blast
    have g: "doGenerate True uuid response =
        bindE (thrown (parsePromptToolCall rt))
          (\<lambda>parsedToolCall.
              case parsedToolCall of
                Tool calls \<Rightarrow> Inr (map (\<lambda>(i, n, a). ToolCallPart i n a) (tool_call_parts uuid calls), ToolCalls)
              | Final ft \<Rightarrow> Inr ([TextPart ft], Stop))"
      using k by (simp add: doGenerate_def Let_def rt thrown_def bindE_def)
    have m: "map (\<lambda>(i, n, a). ToolCallPart i n a) (tool_call_parts uuid calls)
        = map (\<lambda>(i, c). ToolCallPart (uuid i) (fst c) (JSON_stringify (snd c))) (enumerate 0 calls)" for calls
      by (simp add: tool_call_parts_def case_prod_unfold)
    show "\<exists>rt. response_text ?p = Inr rt
           \<and> (\<forall>calls. parsePromptToolCall rt = Inr (Tool calls) \<longrightarrow>
                 doGenerate True uuid response =
                   Inr (map (\<lambda>(i, c). ToolCallPart (uuid i) (fst c) (JSON_stringify (snd c))) (enumerate 0 calls),
                        ToolCalls))
           \<and> (\<forall>t. parsePromptToolCall rt = Inr (Final t) \<longrightarrow>
                 doGenerate True uuid response = Inr ([TextPart t], Stop))"
      using rt by (intro exI[of _ rt]) (simp add: g thrown_def bindE_def m)
  qed
  from 1 2 parsePromptToolCall_eq[of "text"] 4 show ?thesis by blast
qed

theorem first_object_counterexample:
  "first_balanced two_objects = Some first_object
   \<and> parsePromptToolCall first_object = Inr (Final ''a'')
   \<and> json_slice two_objects = Some two_objects
   \<and> extractJson two_objects = None
   \<and> parsePromptToolCall two_objects = Inr (Final two_objects)
   \<and> parsePromptToolCall two_entries = Inr (Tool [(''t'', JObject [])])"
  by code_simp

lemma on_delta_prompt_parts: "parts (on_delta True d st) = parts st"
  by (simp add: on_delta_def)

lemma on_line_prompt:
  "\<exists>st' ex. on_line True raw l st = Inr st' \<and> parts st' = parts st @ ex
      \<and> (\<forall>p\<in>set ex. quiet_part p) \<and> (\<not> raw \<longrightarrow> (\<forall>p\<in>set ex. p = ErrorPart))"
proof (cases "trim l = []")
  case True
  then show ?thesis by (simp add: on_line_def)
next
  case False
  let ?st1 = "if raw then enqueue (Raw (trim l)) st else st"
  have p1: "parts ?st1 = parts st @ (if raw then [Raw (trim l)] else [])"
    by (simp add: enqueue_def)
  show ?thesis
  proof (cases "JSON_parse (trim l)")
    case None
    have "on_line True raw l st = Inr (enqueue ErrorPart (?st1\<lparr>finishReason := ErrorReason\<rparr>))"
      using False None by (simp add: on_line_def Let_def)
    moreover have "parts (enqueue ErrorPart (?st1\<lparr>finishReason := ErrorReason\<rparr>))
        = parts st @ ((if raw then [Raw (trim l)] else []) @ [ErrorPart])"
      by (simp add: enqueue_def)
    moreover have "\<forall>p\<in>set ((if raw then [Raw (trim l)] else []) @ [ErrorPart]). quiet_part p"
      by (simp add: quiet_part_def)
    moreover have "\<not> raw \<longrightarrow> (\<forall>p\<in>set ((if raw then [Raw (trim l)] else []) @ [ErrorPart]). p = ErrorPart)"
      by simp
    ultimately show ?thesis by blast
  next
    case (Some chunk)
    from chunk_delta_total[of chunk] obtain d where d: "chunk_delta chunk = Inr d" by blast
    let ?st2 = "on_delta True d ?st1"
    let ?st3 = "if opt_prop (Some chunk) ''done'' = Some (JBool True) then ?st2\<lparr>isDone := True\<rparr> else ?st2"
    have "on_line True raw l st = Inr ?st3"
      using False Some d by (simp add: on_line_def Let_def bindE_def)
    moreover have "parts ?st3 = parts st @ (if raw then [Raw (trim l)] else [])"
      by (simp add: on_delta_prompt_parts enqueue_def)
    moreover have "\<forall>p\<in>set (if raw then [Raw (trim l)] else []). quiet_part p"
      by (simp add: quiet_part_def)
    moreover have "\<not> raw \<longrightarrow> (\<forall>p\<in>set (if raw then [Raw (trim l)] else []). p = ErrorPart)"
      by simp
    ultimately show ?thesis by blast
  qed
qed

lemma on_lines_prompt:
  "\<exists>st' ex. on_lines True raw ls st = Inr st' \<and> parts st' = parts st @ ex
      \<and> (\<forall>p\<in>set ex. quiet_part p) \<and> (\<not> raw \<longrightarrow> (\<forall>p\<in>set ex. p = ErrorPart))"
proof (induction ls arbitrary: st)
  case Nil
  show ?case by (intro exI[of _ st] exI[of _ "[]"]) simp
next
  case (Cons l ls)
  from on_line_prompt[of raw l st] obtain st1 ex1 where
    1: "on_line True raw l st = Inr st1" "parts st1 = parts st @ ex1"
       "\<forall>p\<in>set ex1. quiet_part p" "\<not> raw \<longrightarrow> (\<forall>p\<in>set ex1. p = ErrorPart)" by blast
  show ?case
  proof (cases "isDone st1")
    case True
    with 1 show ?thesis by (intro exI[of _ st1] exI[of _ ex1]) (simp add: bindE_def)
  next
    case False
    from Cons.IH[of st1] obtain st2 ex2 where
      2: "on_lines True raw ls st1 = Inr st2" "parts st2 = parts st1 @ ex2"
         "\<forall>p\<in>set ex2. quiet_part p" "\<not> raw \<longrightarrow> (\<forall>p\<in>set ex2. p = ErrorPart)" by blast
    from 1 2 False show ?thesis
      by (intro exI[of _ st2] exI[of _ "ex1 @ ex2"]) (auto simp: bindE_def)
  qed
qed

lemma read_loop_prompt:
  "\<exists>st' ex. read_loop True raw cs st = Inr st' \<and> parts st' = parts st @ ex
      \<and> (\<forall>p\<in>set ex. quiet_part p) \<and> (\<not> raw \<longrightarrow> (\<forall>p\<in>set ex. p = ErrorPart))"
proof (induction cs arbitrary: st)
  case Nil
  show ?case by (intro exI[of _ st] exI[of _ "[]"]) simp
next
  case (Cons c cs)
  let ?st0 = "st\<lparr>buf := last (split_nl (buf st @ c))\<rparr>"
  from on_lines_prompt[of raw "butlast (split_nl (buf st @ c))" ?st0] obtain st1 ex1 where
    1: "on_lines True raw (butlast (split_nl (buf st @ c))) ?st0 = Inr st1" "parts st1 = parts st @ ex1"
       "\<forall>p\<in>set ex1. quiet_part p" "\<not> raw \<longrightarrow> (\<forall>p\<in>set ex1. p = ErrorPart)" by auto
  show ?case
  proof (cases "isDone st1")
    case True
    with 1 show ?thesis by (intro exI[of _ st1] exI[of _ ex1]) (simp add: bindE_def Let_def)
  next
    case False
    from Cons.IH[of st1] obtain st2 ex2 where
      2: "read_loop True raw cs st1 = Inr st2" "parts st2 = parts st1 @ ex2"
         "\<forall>p\<in>set ex2. quiet_part p" "\<not> raw \<longrightarrow> (\<forall>p\<in>set ex2. p = ErrorPart)" by blast
    from 1 2 False show ?thesis
      by (intro exI[of _ st2] exI[of _ "ex1 @ ex2"]) (auto simp: bindE_def Let_def)
  qed
qed

lemma tool_parts_eq:
  "map (\<lambda>(i, n, a). ToolCall i n a) (tool_call_parts uuid calls)
     = map (\<lambda>(i, c). ToolCall (uuid i) (fst c) (JSON_stringify (snd c))) (enumerate 0 calls)"
  by (simp add: tool_call_parts_def case_prod_unfold)

lemma stream_some:
  assumes "ok response" and b: "body response = Some chunks"
  obtains st mids where
    "read_loop True raw chunks stream_init = Inr st"
    "parts st = StreamStart # mids"
    "\<forall>p\<in>set mids. quiet_part p"
    "\<not> raw \<longrightarrow> (\<forall>p\<in>set mids. p = ErrorPart)"
    "\<forall>calls. parsePromptToolCall (fullText st) = Inr (Tool calls) \<longrightarrow>
        doStream True raw uuid response =
          Inr (StreamStart # mids
               @ map (\<lambda>(i, c). ToolCall (uuid i) (fst c) (JSON_stringify (snd c))) (enumerate 0 calls)
               @ [Finish ToolCalls])"
    "\<forall>t. parsePromptToolCall (fullText st) = Inr (Final t) \<longrightarrow>
        doStream True raw uuid response =
          Inr (StreamStart # mids
               @ [TextStart ''ollama-text'', TextDelta ''ollama-text'' t, TextEnd ''ollama-text'',
                  Finish Stop])"
proof -
  from read_loop_prompt[of raw chunks stream_init] obtain st mids where
    r: "read_loop True raw chunks stream_init = Inr st" "parts st = parts stream_init @ mids"
       "\<forall>p\<in>set mids. quiet_part p" "\<not> raw \<longrightarrow> (\<forall>p\<in>set mids. p = ErrorPart)" by blast
  have p: "parts st = StreamStart # mids" using r(2) by (simp add: stream_init_def)
  have d: "doStream True raw uuid response = thrown (finish_stream True uuid st)"
    using assms r(1) by (simp add: doStream_def bindE_def)
  have t: "\<forall>calls. parsePromptToolCall (fullText st) = Inr (Tool calls) \<longrightarrow>
                  doStream True raw uuid response =
                    Inr (StreamStart # mids
                         @ map (\<lambda>(i, c). ToolCall (uuid i) (fst c) (JSON_stringify (snd c))) (enumerate 0 calls)
                         @ [Finish ToolCalls])"
    by (simp add: d finish_stream_def bindE_def thrown_def p tool_parts_eq)
  have f: "\<forall>t. parsePromptToolCall (fullText st) = Inr (Final t) \<longrightarrow>
                  doStream True raw uuid response =
                    Inr (StreamStart # mids
                         @ [TextStart ''ollama-text'', TextDelta ''ollama-text'' t, TextEnd ''ollama-text'',
                            Finish Stop])"
    by (simp add: d finish_stream_def bindE_def thrown_def p)
  from that[OF r(1) p r(3) r(4) t f] show thesis .
qed

text \<open>
  C4, as amended. For a response with status ok, in prompt mode: without a body the stream
  is \<open>stream-start\<close>, \<open>finish\<close> with reason \<open>error\<close>. With a body, the parts before the end
  of the stream are \<open>stream-start\<close> and then only raw and error parts (only error parts unless
  raw chunks were asked for); then the accumulated text is parsed once, and the stream ends
  with one tool-call part per call and \<open>finish\<close> with reason \<open>tool-calls\<close>, or with
  \<open>text-start\<close>, \<open>text-delta\<close>, \<open>text-end\<close> and \<open>finish\<close> with reason \<open>stop\<close>. In every
  case \<open>stream-start\<close> is first and \<open>finish\<close> is last.
\<close>

theorem prompt_mode_stream:
  assumes "ok response"
  shows "(body response = None \<longrightarrow>
            doStream True raw uuid response = Inr [StreamStart, Finish ErrorReason])
     \<and> (\<forall>chunks. body response = Some chunks \<longrightarrow>
           (\<exists>st mids. read_loop True raw chunks stream_init = Inr st
              \<and> parts st = StreamStart # mids
              \<and> (\<forall>p\<in>set mids. quiet_part p) \<and> (\<not> raw \<longrightarrow> (\<forall>p\<in>set mids. p = ErrorPart))
              \<and> (\<forall>calls. parsePromptToolCall (fullText st) = Inr (Tool calls) \<longrightarrow>
                    doStream True raw uuid response =
                      Inr (StreamStart # mids
                           @ map (\<lambda>(i, c). ToolCall (uuid i) (fst c) (JSON_stringify (snd c))) (enumerate 0 calls)
                           @ [Finish ToolCalls]))
              \<and> (\<forall>t. parsePromptToolCall (fullText st) = Inr (Final t) \<longrightarrow>
                    doStream True raw uuid response =
                      Inr (StreamStart # mids
                           @ [TextStart ''ollama-text'', TextDelta ''ollama-text'' t, TextEnd ''ollama-text'',
                              Finish Stop]))))
     \<and> (\<exists>ps r. doStream True raw uuid response = Inr (StreamStart # ps @ [Finish r]))"
proof -
  have n: "body response = None \<longrightarrow> doStream True raw uuid response = Inr [StreamStart, Finish ErrorReason]"
    using assms by (simp add: doStream_def enqueue_def stream_init_def)
  have s: "\<forall>chunks. body response = Some chunks \<longrightarrow>
           (\<exists>st mids. read_loop True raw chunks stream_init = Inr st
              \<and> parts st = StreamStart # mids
              \<and> (\<forall>p\<in>set mids. quiet_part p) \<and> (\<not> raw \<longrightarrow> (\<forall>p\<in>set mids. p = ErrorPart))
              \<and> (\<forall>calls. parsePromptToolCall (fullText st) = Inr (Tool calls) \<longrightarrow>
                    doStream True raw uuid response =
                      Inr (StreamStart # mids
                           @ map (\<lambda>(i, c). ToolCall (uuid i) (fst c) (JSON_stringify (snd c))) (enumerate 0 calls)
                           @ [Finish ToolCalls]))
              \<and> (\<forall>t. parsePromptToolCall (fullText st) = Inr (Final t) \<longrightarrow>
                    doStream True raw uuid response =
                      Inr (StreamStart # mids
                           @ [TextStart ''ollama-text'', TextDelta ''ollama-text'' t, TextEnd ''ollama-text'',
                              Finish Stop])))"
  proof (intro allI impI)
    fix chunks assume b: "body response = Some chunks"
    from stream_some[OF assms b, of raw uuid] obtain st mids where
      r: "read_loop True raw chunks stream_init = Inr st"
      "parts st = StreamStart # mids"
      "\<forall>p\<in>set mids. quiet_part p"
      "\<not> raw \<longrightarrow> (\<forall>p\<in>set mids. p = ErrorPart)"
      "\<forall>calls. parsePromptToolCall (fullText st) = Inr (Tool calls) \<longrightarrow>
        doStream True raw uuid response =
          Inr (StreamStart # mids
               @ map (\<lambda>(i, c). ToolCall (uuid i) (fst c) (JSON_stringify (snd c))) (enumerate 0 calls)
               @ [Finish ToolCalls])"
      "\<forall>t. parsePromptToolCall (fullText st) = Inr (Final t) \<longrightarrow>
        doStream True raw uuid response =
          Inr (StreamStart # mids
               @ [TextStart ''ollama-text'', TextDelta ''ollama-text'' t, TextEnd ''ollama-text'',
                  Finish Stop])" .
    show "\<exists>st mids. read_loop True raw chunks stream_init = Inr st
              \<and> parts st = StreamStart # mids
              \<and> (\<forall>p\<in>set mids. quiet_part p) \<and> (\<not> raw \<longrightarrow> (\<forall>p\<in>set mids. p = ErrorPart))
              \<and> (\<forall>calls. parsePromptToolCall (fullText st) = Inr (Tool calls) \<longrightarrow>
                    doStream True raw uuid response =
                      Inr (StreamStart # mids
                           @ map (\<lambda>(i, c). ToolCall (uuid i) (fst c) (JSON_stringify (snd c))) (enumerate 0 calls)
                           @ [Finish ToolCalls]))
              \<and> (\<forall>t. parsePromptToolCall (fullText st) = Inr (Final t) \<longrightarrow>
                    doStream True raw uuid response =
                      Inr (StreamStart # mids
                           @ [TextStart ''ollama-text'', TextDelta ''ollama-text'' t, TextEnd ''ollama-text'',
                              Finish Stop]))"
      by (intro exI[of _ st] exI[of _ mids] conjI) (rule r)+
  qed
  have e: "\<exists>ps r. doStream True raw uuid response = Inr (StreamStart # ps @ [Finish r])"
  proof (cases "body response")
    case None
    with n show ?thesis by (intro exI[of _ "[]"] exI[of _ ErrorReason]) simp
  next
    case (Some chunks)
    from stream_some[OF assms Some, of raw uuid] obtain st mids where
      "read_loop True raw chunks stream_init = Inr st"
      "parts st = StreamStart # mids"
      "\<forall>p\<in>set mids. quiet_part p"
      "\<not> raw \<longrightarrow> (\<forall>p\<in>set mids. p = ErrorPart)"
      and a: "\<forall>calls. parsePromptToolCall (fullText st) = Inr (Tool calls) \<longrightarrow>
        doStream True raw uuid response =
          Inr (StreamStart # mids
               @ map (\<lambda>(i, c). ToolCall (uuid i) (fst c) (JSON_stringify (snd c))) (enumerate 0 calls)
               @ [Finish ToolCalls])"
      "\<forall>t. parsePromptToolCall (fullText st) = Inr (Final t) \<longrightarrow>
        doStream True raw uuid response =
          Inr (StreamStart # mids
               @ [TextStart ''ollama-text'', TextDelta ''ollama-text'' t, TextEnd ''ollama-text'',
                  Finish Stop])" .
    from parsePromptToolCall_total[of "fullText st"] consider
      calls where "parsePromptToolCall (fullText st) = Inr (Tool calls)"
      | t where "parsePromptToolCall (fullText st) = Inr (Final t)" by blast
    then show ?thesis
    proof cases
      case 1
      with a(1) show ?thesis
        by (intro exI[of _ "mids @ map (\<lambda>(i, c). ToolCall (uuid i) (fst c) (JSON_stringify (snd c))) (enumerate 0 calls)"]
              exI[of _ ToolCalls]) simp
    next
      case 2
      with a(2) show ?thesis
        by (intro exI[of _ "mids @ [TextStart ''ollama-text'', TextDelta ''ollama-text'' t, TextEnd ''ollama-text'']"]
              exI[of _ Stop]) simp
    qed
  qed
  from n s e show ?thesis by (intro conjI)
qed

theorem no_body_counterexample:
  "ok no_body \<and> doStream True False ex_uuid no_body = Inr [StreamStart, Finish ErrorReason]"
  by code_simp

theorem prompt_mode_stream_witness:
  "ok hover_stream
   \<and> (\<exists>ps r. doStream True False ex_uuid hover_stream = Inr (StreamStart # ps @ [Finish r]))
   \<and> doStream True False ex_uuid hover_stream
       = Inr [StreamStart, ToolCall ''uuid-x'' ''ide.hover'' hover_input, Finish ToolCalls]"
proof -
  have k: "ok hover_stream" by code_simp
  have e: "doStream True False ex_uuid hover_stream
       = Inr [StreamStart, ToolCall ''uuid-x'' ''ide.hover'' hover_input, Finish ToolCalls]"
    by code_simp
  from prompt_mode_stream[OF k, of False ex_uuid]
  have "\<exists>ps r. doStream True False ex_uuid hover_stream = Inr (StreamStart # ps @ [Finish r])"
    by (elim conjE)
  with k e show ?thesis by (intro conjI)
qed

theorem prompt_mode_generate_witness:
  "ok hover_reply
   \<and> parsePromptToolCall hover_text = Inr (Tool [(''ide.hover'', the (JSON_parse hover_input))])
   \<and> doGenerate True ex_uuid hover_reply = Inr ([ToolCallPart ''uuid-x'' ''ide.hover'' hover_input], ToolCalls)"
proof -
  have k: "ok hover_reply" by code_simp
  have r: "response_text (JSON_parse (concat (case body hover_reply of Some cs \<Rightarrow> cs | None \<Rightarrow> []))) = Inr hover_text"
    by code_simp
  have p: "parsePromptToolCall hover_text = Inr (Tool [(''ide.hover'', the (JSON_parse hover_input))])"
    by code_simp
  have m: "map (\<lambda>(i, c). ToolCallPart (ex_uuid i) (fst c) (JSON_stringify (snd c)))
             (enumerate 0 [(''ide.hover'', the (JSON_parse hover_input))])
           = [ToolCallPart ''uuid-x'' ''ide.hover'' hover_input]"
    by code_simp
  from prompt_mode_generate[of hover_text hover_reply ex_uuid] k
  obtain rt where
    "response_text (JSON_parse (concat (case body hover_reply of Some cs \<Rightarrow> cs | None \<Rightarrow> []))) = Inr rt"
    "\<forall>calls. parsePromptToolCall rt = Inr (Tool calls) \<longrightarrow>
         doGenerate True ex_uuid hover_reply =
           Inr (map (\<lambda>(i, c). ToolCallPart (ex_uuid i) (fst c) (JSON_stringify (snd c))) (enumerate 0 calls),
                ToolCalls)"
    by blast
  with r p have "doGenerate True ex_uuid hover_reply =
           Inr (map (\<lambda>(i, c). ToolCallPart (ex_uuid i) (fst c) (JSON_stringify (snd c)))
                  (enumerate 0 [(''ide.hover'', the (JSON_parse hover_input))]), ToolCalls)"
    by simp
  with m k p show ?thesis by simp
qed

theorem parsePromptToolCall_total_witness:
  "extractJson ''hello'' = None \<and> parsePromptToolCall ''hello'' = Inr (Final ''hello'')"
proof -
  have n: "extractJson ''hello'' = None" by code_simp
  with parsePromptToolCall_total[of "''hello''"] show ?thesis by blast
qed

theorem filter_pass_prunes_witness:
  "(''anthropic'', snd (hd (filter_pass False ex_config ex_providers)))
      \<in> set (filter_pass False ex_config ex_providers)
   \<and> models (snd (hd (filter_pass False ex_config ex_providers))) \<noteq> []
   \<and> map (\<lambda>(i, p). (i, map fst (models p))) (filter_pass False ex_config ex_providers)
       = [(''anthropic'', [''claude-sonnet-4'', ''claude-haiku-4-5''])]"
proof -
  have m: "(''anthropic'', snd (hd (filter_pass False ex_config ex_providers)))
      \<in> set (filter_pass False ex_config ex_providers)"
    by code_simp
  have e: "map (\<lambda>(i, p). (i, map fst (models p))) (filter_pass False ex_config ex_providers)
       = [(''anthropic'', [''claude-sonnet-4'', ''claude-haiku-4-5''])]"
    by code_simp
  from filter_pass_prunes[OF m]
  have "models (snd (hd (filter_pass False ex_config ex_providers))) \<noteq> []" by (elim conjE)
  with m e show ?thesis by (intro conjI)
qed


end
